theory Spec2Isabelle
  imports Complex_Main "HOL-Library.List_Lexorder"
begin

chapter \<open>The model\<close>

section \<open>Python strings\<close>

text \<open>
  A Python \<^verbatim>\<open>str\<close> is a sequence of Unicode code points; \<^verbatim>\<open>len\<close>, indexing and
  slicing count code points. The glyph tables of the generators go beyond ASCII, so a
  string is a list of code points, and an ASCII literal is written \<open>ascii ''abc''\<close>.
\<close>

type_synonym codepoint = nat
type_synonym pystr = "codepoint list"

definition ascii :: "string \<Rightarrow> pystr" where
  "ascii s = map of_char s"

definition is_ascii :: "pystr \<Rightarrow> bool" where
  "is_ascii s = list_all (\<lambda>c. c < 128) s"

text \<open>
  \<^verbatim>\<open>str.isspace\<close> of one character: the code points CPython treats as whitespace
  (tab to carriage return, the four separators, space, NEL, no-break space, and the
  Unicode space separators).
\<close>

definition py_isspace :: "codepoint \<Rightarrow> bool" where
  "py_isspace c =
     (c \<in> set [9, 10, 11, 12, 13, 28, 29, 30, 31, 32, 133, 160, 5760,
                8232, 8233, 8239, 8287, 12288]
      \<or> (8192 \<le> c \<and> c \<le> 8202))"

text \<open>\<^verbatim>\<open>s.strip()\<close>: whitespace is dropped at both ends.\<close>

definition py_strip :: "pystr \<Rightarrow> pystr" where
  "py_strip s = rev (dropWhile py_isspace (rev (dropWhile py_isspace s)))"

definition ascii_lower :: "codepoint \<Rightarrow> codepoint" where
  "ascii_lower c = (if 65 \<le> c \<and> c \<le> 90 then c + 32 else c)"

text \<open>
  \<^verbatim>\<open>s.lower()\<close>. On an ASCII string it maps \<open>A\<close>..\<open>Z\<close> to \<open>a\<close>..\<open>z\<close>. On a string
  with a code point beyond ASCII the result follows the Unicode case tables, which are
  not part of the repository: they are the parameter \<open>ulower\<close>.
\<close>

definition py_lower :: "(pystr \<Rightarrow> pystr) \<Rightarrow> pystr \<Rightarrow> pystr" where
  "py_lower ulower s = (if is_ascii s then map ascii_lower s else ulower s)"

text \<open>\<^verbatim>\<open>xs[:k]\<close>: a negative \<open>k\<close> counts from the end.\<close>

definition py_slice_to :: "'a list \<Rightarrow> int \<Rightarrow> 'a list" where
  "py_slice_to xs k =
     (if 0 \<le> k then take (nat k) xs else take (length xs - nat (- k)) xs)"

text \<open>\<^verbatim>\<open>s.split(sep)\<close> for a one-character separator.\<close>

fun split_on :: "codepoint \<Rightarrow> pystr \<Rightarrow> pystr list" where
  "split_on d [] = [[]]"
| "split_on d (c # cs) =
     (if c = d then [] # split_on d cs
      else (c # hd (split_on d cs)) # tl (split_on d cs))"

text \<open>\<^verbatim>\<open>sep.join(parts)\<close>.\<close>

fun py_join :: "pystr \<Rightarrow> pystr list \<Rightarrow> pystr" where
  "py_join sep [] = []"
| "py_join sep [p] = p"
| "py_join sep (p # q # ps) = p @ sep @ py_join sep (q # ps)"

text \<open>\<^verbatim>\<open>s.endswith(t)\<close> and \<^verbatim>\<open>t in s\<close> (substring).\<close>

definition endswith :: "pystr \<Rightarrow> pystr \<Rightarrow> bool" where
  "endswith s t = (length t \<le> length s \<and> drop (length s - length t) s = t)"

fun contains_str :: "pystr \<Rightarrow> pystr \<Rightarrow> bool" where
  "contains_str [] t = (t = [])"
| "contains_str (c # cs) t = (take (length t) (c # cs) = t \<or> contains_str cs t)"


section \<open>utils/validators.py\<close>

definition is_alpha :: "codepoint \<Rightarrow> bool" where
  "is_alpha c = ((65 \<le> c \<and> c \<le> 90) \<or> (97 \<le> c \<and> c \<le> 122))"

definition is_alnum :: "codepoint \<Rightarrow> bool" where
  "is_alnum c = (is_alpha c \<or> (48 \<le> c \<and> c \<le> 57))"

definition is_label_char :: "codepoint \<Rightarrow> bool" where
  "is_label_char c = (is_alnum c \<or> c = 45)"

text \<open>
  The pattern of \<^verbatim>\<open>is_valid_domain\<close> is
  \<^verbatim>\<open>^(?:[a-zA-Z0-9](?:[a-zA-Z0-9-]{0,61}[a-zA-Z0-9])?\.)+[a-zA-Z]{2,63}$\<close>.
  No character class of it admits a dot, so a string matches exactly when its split at
  the dots is one or more labels followed by a top-level domain:
  a label is \<^verbatim>\<open>[a-zA-Z0-9](?:[a-zA-Z0-9-]{0,61}[a-zA-Z0-9])?\<close>, that is 1 to 63
  letters, digits and hyphens with no hyphen first or last; the top-level domain is
  \<^verbatim>\<open>[a-zA-Z]{2,63}\<close>.
\<close>

definition label_ok :: "pystr \<Rightarrow> bool" where
  "label_ok p =
     (1 \<le> length p \<and> length p \<le> 63 \<and> list_all is_label_char p
      \<and> is_alnum (hd p) \<and> is_alnum (last p))"

definition tld_ok :: "pystr \<Rightarrow> bool" where
  "tld_ok p = (2 \<le> length p \<and> length p \<le> 63 \<and> list_all is_alpha p)"

definition domain_fullmatch :: "pystr \<Rightarrow> bool" where
  "domain_fullmatch s =
     (let ps = split_on 46 s
      in 2 \<le> length ps \<and> list_all label_ok (butlast ps) \<and> tld_ok (last ps))"

text \<open>
  \<^verbatim>\<open>re.match\<close> with \<^verbatim>\<open>^...$\<close>: Python's \<^verbatim>\<open>$\<close> also matches just before a
  newline that ends the string.
\<close>

definition domain_regex_match :: "pystr \<Rightarrow> bool" where
  "domain_regex_match s =
     (domain_fullmatch s \<or> (s \<noteq> [] \<and> last s = 10 \<and> domain_fullmatch (butlast s)))"

definition is_valid_domain :: "pystr \<Rightarrow> bool" where
  "is_valid_domain domain =
     (if domain = [] \<or> 255 < length domain then False
      else domain_regex_match domain)"

text \<open>\<^verbatim>\<open>normalize_domain\<close>; \<open>None\<close> is Python's \<^verbatim>\<open>None\<close> (a missing dict key).\<close>

definition normalize_domain :: "(pystr \<Rightarrow> pystr) \<Rightarrow> pystr option \<Rightarrow> pystr" where
  "normalize_domain ulower domain =
     (case domain of
        None \<Rightarrow> []
      | Some s \<Rightarrow> if s = [] then [] else py_lower ulower (py_strip s))"

section \<open>utils/rate_limiter.py\<close>

datatype py_exception = KeyError pystr | IndexError | OtherException pystr

text \<open>\<^verbatim>\<open>str(e)\<close>: a \<^verbatim>\<open>KeyError\<close> prints its key in quotes.\<close>

fun exception_str :: "py_exception \<Rightarrow> pystr" where
  "exception_str (KeyError k) = ascii [CHR 0x27] @ k @ ascii [CHR 0x27]"
| "exception_str IndexError = ascii ''list index out of range''"
| "exception_str (OtherException msg) = msg"

text \<open>
  The limiter's attributes. Times are seconds, as \<^verbatim>\<open>time.time()\<close> gives them: Python
  floats, that is IEEE 754 doubles. A double is taken as the real number it denotes, and
  comparisons of doubles are exact. \<^verbatim>\<open>period\<close> is an \<^verbatim>\<open>int\<close> or a float; an \<^verbatim>\<open>int\<close> is
  converted to the double of the same value before it enters a float operation.
\<close>

record rate_limiter =
  calls :: int
  period :: real
  timestamps :: "real list"

definition RateLimiter :: "int \<Rightarrow> real \<Rightarrow> rate_limiter" where
  "RateLimiter c p = \<lparr> calls = c, period = p, timestamps = [] \<rparr>"

text \<open>
  \<^verbatim>\<open>__enter__\<close>. Its two subtractions, \<^verbatim>\<open>current_time - t\<close> and
  \<^verbatim>\<open>self.period - (current_time - oldest_call)\<close>, are float subtractions: the result is
  the double nearest to the difference, which is the difference itself only when that is
  a double. The float subtraction is the parameter \<open>fsub\<close> of the model: \<open>fsub a b\<close> is the
  double that Python's \<^verbatim>\<open>a - b\<close> returns for the doubles \<open>a\<close> and \<open>b\<close>.

  \<open>current_time\<close> is what \<^verbatim>\<open>time.time()\<close> returns on entry, and \<open>time_after_sleep\<close>
  what it returns after \<^verbatim>\<open>time.sleep(sleep_time)\<close>, read only when the limiter sleeps.
  The result is the exception raised or the time slept, and the limiter as it is left.
  \<^verbatim>\<open>self.timestamps[0]\<close> on an empty list raises \<^verbatim>\<open>IndexError\<close>, after the pruned list
  has been stored.
\<close>

definition enter ::
  "(real \<Rightarrow> real \<Rightarrow> real) \<Rightarrow> rate_limiter \<Rightarrow> real \<Rightarrow> real
     \<Rightarrow> (py_exception + real) \<times> rate_limiter" where
  "enter fsub self current_time time_after_sleep =
     (let pruned = filter (\<lambda>t. fsub current_time t < period self) (timestamps self) in
      if calls self \<le> int (length pruned) then
        (case pruned of
           [] \<Rightarrow> (Inl IndexError, self\<lparr> timestamps := pruned \<rparr>)
         | oldest_call # _ \<Rightarrow>
             (let sleep_time = fsub (period self) (fsub current_time oldest_call) in
              if 0 < sleep_time
              then (Inr sleep_time, self\<lparr> timestamps := pruned @ [time_after_sleep] \<rparr>)
              else (Inr 0, self\<lparr> timestamps := pruned @ [current_time] \<rparr>)))
      else (Inr 0, self\<lparr> timestamps := pruned @ [current_time] \<rparr>))"

text \<open>
  The number of recorded timestamps within the last \<^verbatim>\<open>period\<close> seconds at time \<open>now\<close>,
  counted in exact arithmetic.
\<close>

definition in_window :: "rate_limiter \<Rightarrow> real \<Rightarrow> nat" where
  "in_window self now = length (filter (\<lambda>t. now - t < period self) (timestamps self))"

text \<open>A limiter of two calls per minute that has recorded entries at 0 and 10 seconds.\<close>

definition busy_limiter :: rate_limiter where
  "busy_limiter = \<lparr> calls = 2, period = 60, timestamps = [0, 10] \<rparr>"

text \<open>
  A limiter of one call per minute with one entry recorded at \<^verbatim>\<open>2**-70\<close> seconds, and
  the float subtraction on the operands it meets when entered at 30 seconds: the double
  nearest to \<^verbatim>\<open>30 - 2**-70\<close> is 30 (the doubles next to 30 are \<^verbatim>\<open>2**-48\<close> away),
  while \<^verbatim>\<open>60 - 30\<close> is exact. On other operands \<open>rounding_sub\<close> is the exact
  difference.
\<close>

definition early_limiter :: rate_limiter where
  "early_limiter = \<lparr> calls = 1, period = 60, timestamps = [1 / 2 ^ 70] \<rparr>"

definition rounding_sub :: "real \<Rightarrow> real \<Rightarrow> real" where
  "rounding_sub a b = (if a = 30 \<and> b = 1 / 2 ^ 70 then 30 else a - b)"

section \<open>database/models.py and crawlers/base_crawler.py\<close>

text \<open>
  A candidate is the dict a crawler hands to \<^verbatim>\<open>save_domain\<close>; every field is read
  with \<^verbatim>\<open>dict.get\<close>, so a missing key reads as \<open>None\<close>.
\<close>

record candidate =
  domain_name :: "pystr option"
  url :: "pystr option"
  target_cse_name :: "pystr option"
  target_cse_domain :: "pystr option"
  discovery_method :: "pystr option"
  raw_data :: "pystr option"
  is_idn :: "bool option"
  idn_original :: "pystr option"

text \<open>
  A row of the table \<^verbatim>\<open>discovered_domains\<close>, with the columns \<^verbatim>\<open>save_domain\<close>
  writes. \<^verbatim>\<open>domain_name\<close>, \<^verbatim>\<open>target_cse_name\<close>, \<^verbatim>\<open>target_cse_domain\<close> and
  \<^verbatim>\<open>source_of_detection\<close> are declared \<^verbatim>\<open>nullable=False\<close>.
\<close>

record discovered_domain =
  col_domain_name :: pystr
  col_url :: "pystr option"
  col_target_cse_name :: pystr
  col_target_cse_domain :: pystr
  col_source_of_detection :: pystr
  col_discovery_method :: "pystr option"
  col_raw_data :: "pystr option"
  col_is_idn :: bool
  col_idn_original :: "pystr option"

datatype log_status = running | completed | failed

text \<open>A row of the table \<^verbatim>\<open>crawler_logs\<close> (the timestamps are not modelled).\<close>

record crawler_log =
  crawler_name :: pystr
  status :: log_status
  domains_discovered :: nat
  errors_encountered :: nat
  error_details :: "pystr list option"

text \<open>
  The state a crawler works on: its own attributes (\<^verbatim>\<open>__init__\<close> gives it a limiter of
  10 calls per 60 seconds) and the two tables it reaches through the database session. A log row's id is its position in the table, from 1.
\<close>

record crawler_state =
  name :: pystr
  rate_limiter :: rate_limiter
  domains_found :: "pystr list"
  log_id :: "nat option"
  discovered_domains :: "discovered_domain list"
  crawler_logs :: "crawler_log list"

definition new_crawler :: "pystr \<Rightarrow> crawler_state" where
  "new_crawler nm =
     \<lparr> name = nm, rate_limiter = RateLimiter 10 60, domains_found = [], log_id = None,
       discovered_domains = [], crawler_logs = [] \<rparr>"

text \<open>
  What the database does with a value at \<^verbatim>\<open>session.commit()\<close>. The engine is the
  PostgreSQL server that \<^verbatim>\<open>config/settings.py\<close> names. A text value must be one the
  driver can send: it raises for a string that contains the character U+0000 or a
  surrogate code point.
\<close>

definition encodable :: "pystr \<Rightarrow> bool" where
  "encodable s = list_all (\<lambda>c. c \<noteq> 0 \<and> \<not> (0xD800 \<le> c \<and> c \<le> 0xDFFF)) s"

text \<open>
  A \<^verbatim>\<open>String(n)\<close> column is a \<^verbatim>\<open>VARCHAR(n)\<close>: a value of more than \<open>n\<close> characters
  raises, unless the characters in excess are all spaces, which are cut off. The result
  is the value stored, or \<open>None\<close> when the commit raises.
\<close>

definition varchar :: "nat \<Rightarrow> pystr \<Rightarrow> pystr option" where
  "varchar n s =
     (if \<not> encodable s then None
      else if length s \<le> n then Some s
      else if list_all (\<lambda>c. c = 32) (drop n s) then Some (take n s)
      else None)"

text \<open>A \<^verbatim>\<open>Text\<close> column has no length limit.\<close>

definition text_column :: "pystr \<Rightarrow> pystr option" where
  "text_column s = (if encodable s then Some s else None)"

text \<open>A \<^verbatim>\<open>nullable=True\<close> column takes \<open>None\<close> as it is.\<close>

definition nullable :: "(pystr \<Rightarrow> pystr option) \<Rightarrow> pystr option \<Rightarrow> pystr option option" where
  "nullable column v = (case v of None \<Rightarrow> Some None | Some x \<Rightarrow> map_option Some (column x))"

text \<open>
  The \<^verbatim>\<open>DiscoveredDomain(...)\<close> entry that \<^verbatim>\<open>save_domain\<close> builds, as the table stores
  it, or \<open>None\<close> when the commit raises: \<^verbatim>\<open>target_cse_name\<close> and \<^verbatim>\<open>target_cse_domain\<close>
  are \<^verbatim>\<open>nullable=False\<close> columns, and every \<^verbatim>\<open>String(n)\<close> column has its length.
  \<^verbatim>\<open>raw_data\<close> is a \<^verbatim>\<open>JSON\<close> column, sent as an ASCII document.
\<close>

definition new_entry :: "crawler_state \<Rightarrow> candidate \<Rightarrow> pystr \<Rightarrow> discovered_domain option" where
  "new_entry s domain_data dn =
     Option.bind (varchar 255 dn) (\<lambda>v_domain_name.
     Option.bind (nullable text_column (url domain_data)) (\<lambda>v_url.
     Option.bind (Option.bind (target_cse_name domain_data) (varchar 255)) (\<lambda>v_target_cse_name.
     Option.bind (Option.bind (target_cse_domain domain_data) (varchar 255)) (\<lambda>v_target_cse_domain.
     Option.bind (varchar 100 (name s)) (\<lambda>v_source_of_detection.
     Option.bind (nullable (varchar 100) (discovery_method domain_data)) (\<lambda>v_discovery_method.
     Option.bind (nullable (varchar 255) (idn_original domain_data)) (\<lambda>v_idn_original.
       Some \<lparr> col_domain_name = v_domain_name,
              col_url = v_url,
              col_target_cse_name = v_target_cse_name,
              col_target_cse_domain = v_target_cse_domain,
              col_source_of_detection = v_source_of_detection,
              col_discovery_method = v_discovery_method,
              col_raw_data = raw_data domain_data,
              col_is_idn = (case is_idn domain_data of None \<Rightarrow> False | Some b \<Rightarrow> b),
              col_idn_original = v_idn_original \<rparr>)))))))"

text \<open>
  \<^verbatim>\<open>save_domain\<close>. The whole body sits in \<^verbatim>\<open>try ... except Exception: return False\<close>,
  so a commit that raises makes it return \<open>False\<close>; the session of that call is dropped
  and the table is as before.
\<close>

definition save_domain ::
  "(pystr \<Rightarrow> pystr) \<Rightarrow> crawler_state \<Rightarrow> candidate \<Rightarrow> bool \<times> crawler_state" where
  "save_domain ulower s domain_data =
     (let dn = normalize_domain ulower (domain_name domain_data) in
      if \<not> is_valid_domain dn then (False, s)
      else
        (case find (\<lambda>row. col_domain_name row = dn) (discovered_domains s) of
           Some existing \<Rightarrow> (False, s)
         | None \<Rightarrow>
            (case new_entry s domain_data dn of
               Some domain_entry \<Rightarrow>
                 (True,
                  s\<lparr> discovered_domains := discovered_domains s @ [domain_entry],
                     domains_found := domains_found s @ [dn] \<rparr>)
             | None \<Rightarrow> (False, s))))"

text \<open>The \<^verbatim>\<open>for domain_data in discovered: self.save_domain(domain_data)\<close> loop.\<close>

fun save_all :: "(pystr \<Rightarrow> pystr) \<Rightarrow> crawler_state \<Rightarrow> candidate list \<Rightarrow> crawler_state" where
  "save_all ulower s [] = s"
| "save_all ulower s (c # cs) = save_all ulower (snd (save_domain ulower s c)) cs"


text \<open>
  The duplicate check of \<^verbatim>\<open>save_domain\<close>,
  \<^verbatim>\<open>session.query(DiscoveredDomain).filter_by(domain_name=...).first()\<close>, as a predicate.
\<close>

definition has_domain :: "crawler_state \<Rightarrow> pystr \<Rightarrow> bool" where
  "has_domain s k = (find (\<lambda>row. col_domain_name row = k) (discovered_domains s) \<noteq> None)"

text \<open>
  A candidate as the crawlers build it, for the examples below, and a candidate that
  carries a domain name only.
\<close>

definition example_candidate :: "pystr \<Rightarrow> candidate" where
  "example_candidate d =
     \<lparr> domain_name = Some d, url = Some (ascii ''http://'' @ d),
       target_cse_name = Some (ascii ''Example''),
       target_cse_domain = Some (ascii ''example.org''),
       discovery_method = Some (ascii ''whois_typosquat''), raw_data = None,
       is_idn = None, idn_original = None \<rparr>"

definition bare_candidate :: "pystr \<Rightarrow> candidate" where
  "bare_candidate d =
     \<lparr> domain_name = Some d, url = None, target_cse_name = None, target_cse_domain = None,
       discovery_method = None, raw_data = None, is_idn = None, idn_original = None \<rparr>"

section \<open>generators/typosquat.py\<close>

text \<open>
  Each operator of \<^verbatim>\<open>TyposquatGenerator\<close> fills a Python set by \<^verbatim>\<open>variants.add(...)\<close>
  inside its loops. The model returns the strings in the order they are added; the set
  the operator returns is \<^term>\<open>set\<close> of that list.
\<close>

definition COMMON_TLDS :: "pystr list" where
  "COMMON_TLDS = map ascii
     [''com'', ''net'', ''org'', ''info'', ''co'', ''in'', ''co.in'',
      ''xyz'', ''top'', ''online'', ''site'', ''club'', ''live'',
      ''tech'', ''store'', ''website'', ''space'', ''pro'']"

definition CHAR_SUBSTITUTIONS :: "(pystr \<times> pystr list) list" where
  "CHAR_SUBSTITUTIONS =
     [(ascii ''a'', map ascii [''@'', ''4'']),
      (ascii ''e'', map ascii [''3'']),
      (ascii ''i'', map ascii [''1'', ''l'', ''!'']),
      (ascii ''l'', map ascii [''1'', ''i'']),
      (ascii ''o'', map ascii [''0'']),
      (ascii ''s'', map ascii [''5'', ''$'']),
      (ascii ''t'', map ascii [''7'']),
      (ascii ''g'', map ascii [''9'']),
      (ascii ''b'', map ascii [''8''])]"

definition KEYBOARD_ADJACENCY :: "(pystr \<times> pystr) list" where
  "KEYBOARD_ADJACENCY =
     [(ascii ''a'', ascii ''sqwz''), (ascii ''b'', ascii ''vghn''),
      (ascii ''c'', ascii ''xdfv''), (ascii ''d'', ascii ''serfcx''),
      (ascii ''e'', ascii ''wsdr''), (ascii ''f'', ascii ''drtgvc''),
      (ascii ''g'', ascii ''ftyhhbv''), (ascii ''h'', ascii ''gyujnb''),
      (ascii ''i'', ascii ''ujko''), (ascii ''j'', ascii ''huikmn''),
      (ascii ''k'', ascii ''jiolm''), (ascii ''l'', ascii ''kop''),
      (ascii ''m'', ascii ''njk''), (ascii ''n'', ascii ''bhjm''),
      (ascii ''o'', ascii ''iklp''), (ascii ''p'', ascii ''ol''),
      (ascii ''q'', ascii ''wa''), (ascii ''r'', ascii ''edf t''),
      (ascii ''s'', ascii ''awedxz''), (ascii ''t'', ascii ''rfgy''),
      (ascii ''u'', ascii ''yhji''), (ascii ''v'', ascii ''cfgb''),
      (ascii ''w'', ascii ''qase''), (ascii ''x'', ascii ''zsdc''),
      (ascii ''y'', ascii ''tghu''), (ascii ''z'', ascii ''asx'')]"

text \<open>
  The table local to \<^verbatim>\<open>_homograph_variants\<close>, by code point: digit zero, and the
  Greek and Cyrillic look-alikes.
\<close>

definition homographs :: "(pystr \<times> pystr list) list" where
  "homographs =
     [(ascii ''o'', [[0x30], [0x3BF], [0x43E]]),
      (ascii ''a'', [[0x430], [0x3B1]]),
      (ascii ''e'', [[0x435], [0x3B5]]),
      (ascii ''i'', [[0x456], [0x3B9]]),
      (ascii ''p'', [[0x440], [0x3C1]]),
      (ascii ''c'', [[0x441], [0x3F2]]),
      (ascii ''y'', [[0x443], [0x3B3]])]"

text \<open>
  \<^verbatim>\<open>tldextract.extract\<close> is a library outside the repository: the split of a domain
  into its parts is a parameter of the model.
\<close>

record domain_parts =
  part_subdomain :: pystr
  part_domain :: pystr
  part_suffix :: pystr

text \<open>The f-string \<^verbatim>\<open>f"{variant}.{tld}"\<close>.\<close>

definition fqdn :: "pystr \<Rightarrow> pystr \<Rightarrow> pystr" where
  "fqdn variant tld = variant @ ascii ''.'' @ tld"

definition character_omission :: "pystr \<Rightarrow> pystr \<Rightarrow> pystr list" where
  "character_omission domain tld =
     map (\<lambda>variant. fqdn variant tld)
       (filter (\<lambda>variant. 3 \<le> length variant)
          (map (\<lambda>i. take i domain @ drop (i + 1) domain) [0..<length domain]))"

definition character_repetition :: "pystr \<Rightarrow> pystr \<Rightarrow> pystr list" where
  "character_repetition domain tld =
     map (\<lambda>i. fqdn (take i domain @ [domain ! i] @ drop i domain) tld) [0..<length domain]"

definition character_substitution :: "(pystr \<Rightarrow> pystr) \<Rightarrow> pystr \<Rightarrow> pystr \<Rightarrow> pystr list" where
  "character_substitution ulower domain tld =
     concat (map (\<lambda>i.
        case map_of CHAR_SUBSTITUTIONS (py_lower ulower [domain ! i]) of
          None \<Rightarrow> []
        | Some replacements \<Rightarrow>
            map (\<lambda>replacement. fqdn (take i domain @ replacement @ drop (i + 1) domain) tld)
              replacements)
       [0..<length domain])"

text \<open>The characters \<^verbatim>\<open>_character_insertion\<close> inserts.\<close>

definition insertion_chars :: pystr where
  "insertion_chars = ascii ''abcdefghijklmnopqrstuvwxyz0123456789''"

definition character_insertion :: "pystr \<Rightarrow> pystr \<Rightarrow> pystr list" where
  "character_insertion domain tld =
     concat (map (\<lambda>i.
        map (\<lambda>variant. fqdn variant tld)
          (filter (\<lambda>variant. length variant \<le> 63)
             (map (\<lambda>char. take i domain @ [char] @ drop i domain)
                insertion_chars)))
       [0..<length domain + 1])"

definition character_swap :: "pystr \<Rightarrow> pystr \<Rightarrow> pystr list" where
  "character_swap domain tld =
     map (\<lambda>i. fqdn (domain[i := domain ! (i + 1), i + 1 := domain ! i]) tld)
       [0..<length domain - 1]"

definition keyboard_typos :: "(pystr \<Rightarrow> pystr) \<Rightarrow> pystr \<Rightarrow> pystr \<Rightarrow> pystr list" where
  "keyboard_typos ulower domain tld =
     concat (map (\<lambda>i.
        case map_of KEYBOARD_ADJACENCY (py_lower ulower [domain ! i]) of
          None \<Rightarrow> []
        | Some adjacent_keys \<Rightarrow>
            map (\<lambda>adjacent. fqdn (take i domain @ [adjacent] @ drop (i + 1) domain) tld)
              adjacent_keys)
       [0..<length domain])"

definition homograph_variants :: "(pystr \<Rightarrow> pystr) \<Rightarrow> pystr \<Rightarrow> pystr \<Rightarrow> pystr list" where
  "homograph_variants ulower domain tld =
     concat (map (\<lambda>i.
        case map_of homographs (py_lower ulower [domain ! i]) of
          None \<Rightarrow> []
        | Some replacements \<Rightarrow>
            map (\<lambda>replacement. fqdn (take i domain @ replacement @ drop (i + 1) domain) tld)
              replacements)
       [0..<length domain])"

definition tld_variations :: "pystr \<Rightarrow> pystr list" where
  "tld_variations domain = map (\<lambda>tld. fqdn domain tld) COMMON_TLDS"

definition hyphenation :: "pystr \<Rightarrow> pystr \<Rightarrow> pystr list" where
  "hyphenation domain tld =
     map (\<lambda>i. fqdn (take i domain @ ascii ''-'' @ drop i domain) tld) [1..<length domain]"

definition prefixes :: "pystr list" where
  "prefixes = map ascii ['''', ''www'', ''secure'', ''login'', ''account'', ''verify'', ''update'']"

definition suffixes :: "pystr list" where
  "suffixes = map ascii ['''', ''login'', ''secure'', ''online'', ''bank'', ''auth'', ''verify'']"

definition prefix_suffix :: "pystr \<Rightarrow> pystr \<Rightarrow> pystr list" where
  "prefix_suffix domain tld =
     concat (map (\<lambda>prefix.
        concat (map (\<lambda>suffix.
           if prefix \<noteq> [] \<or> suffix \<noteq> []
           then [fqdn (py_join (ascii ''-'') (filter (\<lambda>p. p \<noteq> []) [prefix, domain, suffix])) tld]
           else [])
          suffixes))
       prefixes)"

text \<open>
  The ten \<^verbatim>\<open>variants.update(...)\<close> calls of \<^verbatim>\<open>generate_all_variants\<close>, in their order.
\<close>

definition operator_variants :: "(pystr \<Rightarrow> pystr) \<Rightarrow> pystr \<Rightarrow> pystr \<Rightarrow> pystr list" where
  "operator_variants ulower base_domain original_tld =
     character_omission base_domain original_tld
     @ character_repetition base_domain original_tld
     @ character_substitution ulower base_domain original_tld
     @ character_insertion base_domain original_tld
     @ character_swap base_domain original_tld
     @ keyboard_typos ulower base_domain original_tld
     @ homograph_variants ulower base_domain original_tld
     @ tld_variations base_domain
     @ hyphenation base_domain original_tld
     @ prefix_suffix base_domain original_tld"

text \<open>
  \<^verbatim>\<open>generate_all_variants\<close>. The cap is applied by
  \<^verbatim>\<open>set(list(variants)[:max_variants])\<close>. The order in which \<^verbatim>\<open>list\<close> walks a set of
  strings is not fixed by the language (it follows the strings' hashes, which change
  from one interpreter process to the next): the walk is the parameter \<open>set_order\<close>.
\<close>

definition generate_all_variants ::
  "(pystr set \<Rightarrow> pystr list) \<Rightarrow> (pystr \<Rightarrow> pystr) \<Rightarrow> (pystr \<Rightarrow> domain_parts)
     \<Rightarrow> pystr \<Rightarrow> int \<Rightarrow> pystr set" where
  "generate_all_variants set_order ulower extract_domain_parts domain max_variants =
     (let parts = extract_domain_parts domain;
          base_domain = part_domain parts;
          original_tld = part_suffix parts;
          variants = set (operator_variants ulower base_domain original_tld)
      in if max_variants < int (card variants)
         then set (py_slice_to (set_order variants) max_variants)
         else variants)"

text \<open>
  What every walk of a finite set does: it visits each element once. The sorted walk
  and its reverse are two such walks.
\<close>

definition walks_sets :: "(pystr set \<Rightarrow> pystr list) \<Rightarrow> bool" where
  "walks_sets set_order =
     (\<forall>S. finite S \<longrightarrow> set (set_order S) = S \<and> distinct (set_order S))"

definition sorted_walk :: "pystr set \<Rightarrow> pystr list" where
  "sorted_walk S = sorted_list_of_set S"

definition reversed_walk :: "pystr set \<Rightarrow> pystr list" where
  "reversed_walk S = rev (sorted_list_of_set S)"

text \<open>
  The split \<^verbatim>\<open>tldextract\<close> makes of a two-label name whose last label is a public
  suffix, such as \<^verbatim>\<open>acmebank.com\<close>: no subdomain, the first label, the last label.
\<close>

definition split_last_dot :: "pystr \<Rightarrow> domain_parts" where
  "split_last_dot d =
     (let ps = split_on 46 d
      in \<lparr> part_subdomain = py_join (ascii ''.'') (butlast (butlast ps)),
           part_domain = (if 2 \<le> length ps then last (butlast ps) else []),
           part_suffix = last ps \<rparr>)"

section \<open>crawlers/base_crawler.py: logging and the run loop\<close>

text \<open>
  A target is the dict of one entry of the target list. \<^verbatim>\<open>name\<close> and
  \<^verbatim>\<open>primary_domain\<close> are read with \<^verbatim>\<open>cse[...]\<close>, which raises \<^verbatim>\<open>KeyError\<close> on a
  missing key; \<^verbatim>\<open>keywords\<close> and \<^verbatim>\<open>additional_domains\<close> are read with
  \<^verbatim>\<open>.get(..., [])\<close>.
\<close>

record target_cse =
  cse_name :: "pystr option"
  primary_domain :: "pystr option"
  cse_keywords :: "pystr list option"
  additional_domains :: "pystr list option"

text \<open>
  \<^verbatim>\<open>start_logging\<close> commits a row with the crawler's name in the \<^verbatim>\<open>String(100)\<close> column
  \<^verbatim>\<open>crawler_name\<close>. The result is \<open>None\<close> when that commit raises: nothing catches the
  exception, and no row is written.
\<close>

definition start_logging :: "crawler_state \<Rightarrow> crawler_state option" where
  "start_logging s =
     (case varchar 100 (name s) of
        None \<Rightarrow> None
      | Some v_crawler_name \<Rightarrow>
          Some (s\<lparr> crawler_logs := crawler_logs s @
                     [\<lparr> crawler_name = v_crawler_name, status = running,
                        domains_discovered = 0, errors_encountered = 0,
                        error_details = None \<rparr>],
                  log_id := Some (length (crawler_logs s) + 1) \<rparr>))"

text \<open>
  \<^verbatim>\<open>end_logging\<close>: nothing happens without a log id (\<^verbatim>\<open>if not self.log_id\<close>, which
  also holds for 0) or when no row has that id.
\<close>

definition end_logging :: "crawler_state \<Rightarrow> log_status \<Rightarrow> pystr list \<Rightarrow> crawler_state" where
  "end_logging s new_status errors =
     (case log_id s of
        None \<Rightarrow> s
      | Some i \<Rightarrow>
          if i = 0 \<or> length (crawler_logs s) < i then s
          else s\<lparr> crawler_logs := (crawler_logs s)
                 [i - 1 := (crawler_logs s ! (i - 1))
                    \<lparr> status := new_status,
                      domains_discovered := length (domains_found s),
                      errors_encountered := (if errors = [] then 0 else length errors),
                      error_details := (if errors = [] then None else Some errors) \<rparr>] \<rparr>)"

text \<open>The message \<^verbatim>\<open>f"Error crawling {cse['name']}: {str(e)}"\<close>.\<close>

definition error_msg :: "pystr \<Rightarrow> py_exception \<Rightarrow> pystr" where
  "error_msg nm e = ascii ''Error crawling '' @ nm @ ascii '': '' @ exception_str e"

text \<open>
  The clock of a run: \<open>clock k\<close> is the pair of \<^verbatim>\<open>time.time()\<close> readings that the
  limiter takes when it is entered for the target at position \<open>k\<close>, on entry and after
  its sleep.
\<close>

type_synonym run_clock = "nat \<Rightarrow> real \<times> real"

text \<open>
  \<^verbatim>\<open>with self.rate_limiter:\<close> at position \<open>k\<close>: the exception of \<^verbatim>\<open>__enter__\<close> if it
  raises, and the crawler with its limiter updated.
\<close>

definition enter_limiter ::
  "(real \<Rightarrow> real \<Rightarrow> real) \<Rightarrow> run_clock \<Rightarrow> nat \<Rightarrow> crawler_state
     \<Rightarrow> py_exception option \<times> crawler_state" where
  "enter_limiter fsub clock k s =
     (case enter fsub (rate_limiter s) (fst (clock k)) (snd (clock k)) of
        (Inl e, limiter') \<Rightarrow> (Some e, s\<lparr> rate_limiter := limiter' \<rparr>)
      | (Inr slept, limiter') \<Rightarrow> (None, s\<lparr> rate_limiter := limiter' \<rparr>))"

text \<open>
  The \<^verbatim>\<open>for cse in cse_targets\<close> loop of \<^verbatim>\<open>run\<close>, from position \<open>k\<close> on. \<open>crawl\<close> is the
  abstract method: it returns the candidates or raises. \<^verbatim>\<open>cse['name']\<close> is read for the
  log line before the inner \<^verbatim>\<open>try\<close>, so a target without a name raises out of the
  loop; the state reached so far goes with the exception. An exception of the limiter's
  entry or of \<open>crawl\<close> is caught by the inner \<^verbatim>\<open>except Exception\<close> and its message
  appended to \<open>errors\<close>. \<^verbatim>\<open>save_domain\<close> catches its own exceptions.
\<close>

fun crawl_targets ::
  "(pystr \<Rightarrow> pystr) \<Rightarrow> (real \<Rightarrow> real \<Rightarrow> real) \<Rightarrow> (target_cse \<Rightarrow> py_exception + candidate list)
     \<Rightarrow> run_clock \<Rightarrow> nat \<Rightarrow> crawler_state \<Rightarrow> pystr list \<Rightarrow> target_cse list
     \<Rightarrow> (py_exception \<times> crawler_state) + (crawler_state \<times> pystr list)" where
  "crawl_targets ulower fsub crawl clock k s errors [] = Inr (s, errors)"
| "crawl_targets ulower fsub crawl clock k s errors (cse # rest) =
     (case cse_name cse of
        None \<Rightarrow> Inl (KeyError (ascii ''name''), s)
      | Some nm \<Rightarrow>
          (case enter_limiter fsub clock k s of
             (Some e, s1) \<Rightarrow>
               crawl_targets ulower fsub crawl clock (k + 1) s1 (errors @ [error_msg nm e]) rest
           | (None, s1) \<Rightarrow>
               (case crawl cse of
                  Inl e \<Rightarrow>
                    crawl_targets ulower fsub crawl clock (k + 1) s1
                      (errors @ [error_msg nm e]) rest
                | Inr discovered \<Rightarrow>
                    crawl_targets ulower fsub crawl clock (k + 1) (save_all ulower s1 discovered)
                      errors rest)))"

text \<open>The summary dict \<^verbatim>\<open>run\<close> returns.\<close>

record run_summary =
  summary_crawler :: pystr
  summary_domains_found :: nat
  summary_cses_processed :: nat
  summary_errors :: nat

text \<open>
  How a call of \<^verbatim>\<open>run\<close> ends: it returns its summary, it re-raises the exception that
  left the loop, or the commit of \<^verbatim>\<open>start_logging\<close>, which stands before the \<^verbatim>\<open>try\<close>,
  raised.
\<close>

datatype run_result = Returned run_summary | Reraised py_exception | StartFailed

text \<open>\<^verbatim>\<open>run\<close>: how it ends, and the state left behind.\<close>

definition run ::
  "(pystr \<Rightarrow> pystr) \<Rightarrow> (real \<Rightarrow> real \<Rightarrow> real) \<Rightarrow> (target_cse \<Rightarrow> py_exception + candidate list)
     \<Rightarrow> run_clock \<Rightarrow> crawler_state \<Rightarrow> target_cse list \<Rightarrow> run_result \<times> crawler_state" where
  "run ulower fsub crawl clock s cse_targets =
     (case start_logging s of
        None \<Rightarrow> (StartFailed, s)
      | Some s0 \<Rightarrow>
          (case crawl_targets ulower fsub crawl clock 0 s0 [] cse_targets of
             Inr (s1, errors) \<Rightarrow>
               (Returned \<lparr> summary_crawler = name s1,
                           summary_domains_found = length (domains_found s1),
                           summary_cses_processed = length cse_targets,
                           summary_errors = length errors \<rparr>,
                end_logging s1 completed errors)
           | Inl (e, s1) \<Rightarrow> (Reraised e, end_logging s1 failed [exception_str e])))"










section \<open>crawlers/whois_crawler.py\<close>

text \<open>
  The legitimate-domain filter, as the sibling crawlers have it
  (\<^verbatim>\<open>_is_legitimate_domain\<close> of \<^verbatim>\<open>cert_transparency.py\<close>): the domain is the primary
  domain or an additional domain of the target, or ends with a dot followed by one.
\<close>

definition legitimate_domains :: "target_cse \<Rightarrow> pystr list" where
  "legitimate_domains target =
     (case primary_domain target of None \<Rightarrow> [] | Some p \<Rightarrow> [p])
     @ (case additional_domains target of None \<Rightarrow> [] | Some ds \<Rightarrow> ds)"

definition matches_legitimate :: "pystr \<Rightarrow> target_cse \<Rightarrow> bool" where
  "matches_legitimate d target =
     list_ex (\<lambda>legit. d = legit \<or> endswith d (ascii ''.'' @ legit)) (legitimate_domains target)"

definition is_legitimate_domain :: "pystr \<Rightarrow> target_cse \<Rightarrow> py_exception + bool" where
  "is_legitimate_domain d target =
     (case primary_domain target of
        None \<Rightarrow> Inl (KeyError (ascii ''primary_domain''))
      | Some p \<Rightarrow> Inr (matches_legitimate d target))"











text \<open>The target of the end-to-end scenario, and a world in which every name resolves
  and every registration is one day old.\<close>

definition acme_target :: target_cse where
  "acme_target =
     \<lparr> cse_name = Some (ascii ''Acme Bank''), primary_domain = Some (ascii ''acmebank.com''),
       cse_keywords = Some [ascii ''acme''], additional_domains = Some [] \<rparr>"



section \<open>crawlers/cert_transparency.py\<close>

text \<open>The \<^verbatim>\<open>cert_data\<close> dict that the callback queues.\<close>

record cert_data =
  all_domains :: "pystr list"
  issuer :: "pystr option"
  not_before :: "pystr option"
  not_after :: "pystr option"

text \<open>The attributes of \<^verbatim>\<open>CertTransparencyCrawler\<close> that the two loops use.\<close>

record cert_crawler =
  cert_queue :: "cert_data list"
  stop_monitoring :: bool
  monitoring_duration :: nat
  max_retries :: int
  retry_count :: int

text \<open>\<^verbatim>\<open>__init__\<close>; the queue is \<^verbatim>\<open>queue.Queue(maxsize=10000)\<close>.\<close>

definition CertTransparencyCrawler :: cert_crawler where
  "CertTransparencyCrawler =
     \<lparr> cert_queue = [], stop_monitoring = False, monitoring_duration = 300,
       max_retries = 3, retry_count = 0 \<rparr>"

definition queue_maxsize :: nat where
  "queue_maxsize = 10000"

text \<open>
  What reaches the subscriber while \<^verbatim>\<open>certstream.listen_for_events\<close> runs: a message
  of the feed (a heartbeat or other type, a well-formed \<^verbatim>\<open>certificate_update\<close>, or one
  whose fields are missing), or the consumer thread setting the stop flag meanwhile.
\<close>

datatype feed_event =
    OtherMessage
  | CertificateUpdate cert_data
  | MalformedUpdate
  | ConsumerStops

text \<open>
  The callback of \<^verbatim>\<open>_monitor_ct_logs\<close>: it returns at once when the stop flag is set;
  a well-formed update is queued unless the queue is full, and resets the retry count;
  a malformed one raises inside the \<^verbatim>\<open>try\<close> and changes nothing.
\<close>

fun on_event :: "cert_crawler \<Rightarrow> feed_event \<Rightarrow> cert_crawler" where
  "on_event self ConsumerStops = self\<lparr> stop_monitoring := True \<rparr>"
| "on_event self OtherMessage = self"
| "on_event self MalformedUpdate = self"
| "on_event self (CertificateUpdate cert) =
     (if stop_monitoring self then self
      else self\<lparr> cert_queue := (if length (cert_queue self) < queue_maxsize
                                  then cert_queue self @ [cert] else cert_queue self),
                 retry_count := 0 \<rparr>)"

text \<open>
  One call of \<^verbatim>\<open>certstream.listen_for_events\<close>: the events that arrive during it, and
  whether it ends by raising an exception or by returning.
\<close>

record connection_attempt =
  events :: "feed_event list"
  raises :: bool

text \<open>
  The retry loop of \<^verbatim>\<open>_monitor_ct_logs\<close>,
  \<^verbatim>\<open>while self.retry_count < self.max_retries and not self.stop_monitoring\<close>, run against
  the connection attempts the feed allows. The result is the crawler as the loop leaves
  it, the \<^verbatim>\<open>time.sleep\<close> calls it made (in seconds), and whether the loop has ended (it
  has not when the attempts listed are used up and the loop would connect again).
\<close>

fun monitor_ct_logs ::
  "cert_crawler \<Rightarrow> int list \<Rightarrow> connection_attempt list \<Rightarrow> cert_crawler \<times> int list \<times> bool" where
  "monitor_ct_logs self sleeps [] =
     (self, sleeps, \<not> (retry_count self < max_retries self \<and> \<not> stop_monitoring self))"
| "monitor_ct_logs self sleeps (attempt # rest) =
     (if retry_count self < max_retries self \<and> \<not> stop_monitoring self then
        (let self1 = foldl on_event self (events attempt) in
         if raises attempt then
           (let self2 = self1\<lparr> retry_count := retry_count self1 + 1 \<rparr> in
            if retry_count self2 < max_retries self2
            then monitor_ct_logs self2 (sleeps @ [5 * retry_count self2]) rest
            else (self2\<lparr> stop_monitoring := True \<rparr>, sleeps, True))
         else monitor_ct_logs self1 sleeps rest)
      else (self, sleeps, True))"

text \<open>\<^verbatim>\<open>_is_idn_domain\<close>: the name does not encode as ASCII.\<close>

definition is_idn_domain :: "pystr \<Rightarrow> bool" where
  "is_idn_domain d = (\<not> is_ascii d)"

text \<open>
  The scan of one certificate in \<^verbatim>\<open>crawl\<close>: for each of its domains, the first keyword
  found in the lowercased domain decides; a domain that is not legitimate is appended
  once. A \<^verbatim>\<open>KeyError\<close> (no \<^verbatim>\<open>primary_domain\<close> or \<^verbatim>\<open>name\<close> in the target) is caught by the
  loop's \<^verbatim>\<open>except Exception\<close>, which ends the scan of this certificate.
\<close>

fun scan_domains ::
  "(pystr \<Rightarrow> pystr) \<Rightarrow> target_cse \<Rightarrow> cert_data \<Rightarrow> pystr list \<Rightarrow> candidate list \<Rightarrow> candidate list" where
  "scan_domains ulower target cert [] discovered = discovered"
| "scan_domains ulower target cert (d # ds) discovered =
     (if list_ex (\<lambda>keyword. contains_str (py_lower ulower d) (py_lower ulower keyword))
           (case cse_keywords target of None \<Rightarrow> [] | Some ks \<Rightarrow> ks)
      then
        (case is_legitimate_domain d target of
           Inl e \<Rightarrow> discovered
         | Inr True \<Rightarrow> scan_domains ulower target cert ds discovered
         | Inr False \<Rightarrow>
             (case (cse_name target, primary_domain target) of
                (Some nm, Some primary) \<Rightarrow>
                  scan_domains ulower target cert ds
                    (discovered @
                     [\<lparr> domain_name = Some d,
                        url = Some (ascii ''https://'' @ d),
                        target_cse_name = Some nm,
                        target_cse_domain = Some primary,
                        discovery_method = Some (ascii ''certificate_transparency''),
                        raw_data = issuer cert,
                        is_idn = Some (is_idn_domain d),
                        idn_original = None \<rparr>])
              | _ \<Rightarrow> discovered))
      else scan_domains ulower target cert ds discovered)"

text \<open>
  One turn of the consumer loop of \<^verbatim>\<open>crawl\<close>, as the clock and the queue present it:
  \<open>elapsed_at_test\<close> is \<^verbatim>\<open>(datetime.now() - start_time).seconds\<close> when the loop condition
  is tested, \<open>pulled\<close> what \<^verbatim>\<open>cert_queue.get(timeout=10)\<close> returns (\<open>None\<close> for
  \<^verbatim>\<open>queue.Empty\<close>), and \<open>elapsed_at_empty\<close> the same clock in the \<^verbatim>\<open>except queue.Empty\<close>
  branch.
\<close>

record pull =
  elapsed_at_test :: nat
  pulled :: "cert_data option"
  elapsed_at_empty :: nat

text \<open>
  The consumer loop,
  \<^verbatim>\<open>while (datetime.now() - start_time).seconds < self.monitoring_duration and not timeout\<close>.
  The result is the candidates found, the number of \<^verbatim>\<open>get\<close> calls made, and whether the
  loop has ended. The loop condition reads the clock and the local \<^verbatim>\<open>timeout\<close> only.
\<close>

fun consume ::
  "(pystr \<Rightarrow> pystr) \<Rightarrow> cert_crawler \<Rightarrow> target_cse \<Rightarrow> candidate list \<Rightarrow> nat \<Rightarrow> pull list
     \<Rightarrow> candidate list \<times> nat \<times> bool" where
  "consume ulower self target discovered pulls [] = (discovered, pulls, False)"
| "consume ulower self target discovered pulls (p # ps) =
     (if elapsed_at_test p < monitoring_duration self then
        (case pulled p of
           Some cert \<Rightarrow>
             consume ulower self target
               (scan_domains ulower target cert (all_domains cert) discovered) (pulls + 1) ps
         | None \<Rightarrow>
             if 30 < elapsed_at_empty p then (discovered, pulls + 1, True)
             else consume ulower self target discovered (pulls + 1) ps)
      else (discovered, pulls, True))"

text \<open>A feed that refuses the connection, \<open>n\<close> times over; and a queue that stays empty.\<close>

definition refused :: connection_attempt where
  "refused = \<lparr> events = [], raises = True \<rparr>"

definition empty_pull :: "nat \<Rightarrow> pull" where
  "empty_pull t = \<lparr> elapsed_at_test = t, pulled = None, elapsed_at_empty = t + 10 \<rparr>"

section \<open>generators/idn_generator.py\<close>

text \<open>
  The table \<^verbatim>\<open>HOMOGRAPHS\<close>, by code point. Twelve rows (\<^verbatim>\<open>f\<close>, \<^verbatim>\<open>m\<close>, \<^verbatim>\<open>n\<close>,
  \<^verbatim>\<open>q\<close>, \<^verbatim>\<open>r\<close>, \<^verbatim>\<open>t\<close>, \<^verbatim>\<open>u\<close>, \<^verbatim>\<open>v\<close>, \<^verbatim>\<open>w\<close>, \<^verbatim>\<open>x\<close>, \<^verbatim>\<open>y\<close>, \<^verbatim>\<open>z\<close>) start
  with the ASCII letter itself.
\<close>

definition HOMOGRAPHS :: "(pystr \<times> pystr list) list" where
  "HOMOGRAPHS =
     [
      (ascii ''a'', [[0x430], [0x251], [0x3B1], [0xFF41]]),
      (ascii ''b'', [[0x42C], [0x15AF], [0xFF42]]),
      (ascii ''c'', [[0x441], [0x3F2], [0x217D], [0xFF43]]),
      (ascii ''d'', [[0x501], [0x217E], [0xFF44]]),
      (ascii ''e'', [[0x435], [0x117], [0x3B5], [0xFF45]]),
      (ascii ''f'', [[0x66], [0xFF46]]),
      (ascii ''g'', [[0x261], [0x262], [0xFF47]]),
      (ascii ''h'', [[0x4BB], [0x4BA], [0xFF48]]),
      (ascii ''i'', [[0x456], [0x3B9], [0x2170], [0xFF49]]),
      (ascii ''j'', [[0x458], [0x2149], [0xFF4A]]),
      (ascii ''k'', [[0x3BA], [0x43A], [0xFF4B]]),
      (ascii ''l'', [[0x217C], [0x2160], [0xFF4C]]),
      (ascii ''m'', [[0x6D], [0x217F], [0xFF4D]]),
      (ascii ''n'', [[0x6E], [0x578], [0xFF4E]]),
      (ascii ''o'', [[0x43E], [0x3BF], [0x3C3], [0x9E6], [0xFF4F]]),
      (ascii ''p'', [[0x440], [0x3C1], [0x2CA3], [0xFF50]]),
      (ascii ''q'', [[0x71], [0x51B], [0xFF51]]),
      (ascii ''r'', [[0x72], [0x433], [0xFF52]]),
      (ascii ''s'', [[0x455], [0x282], [0xFF53]]),
      (ascii ''t'', [[0x74], [0x442], [0xFF54]]),
      (ascii ''u'', [[0x75], [0x3C5], [0x57D], [0xFF55]]),
      (ascii ''v'', [[0x76], [0x3BD], [0x475], [0xFF56]]),
      (ascii ''w'', [[0x77], [0x51D], [0xFF57]]),
      (ascii ''x'', [[0x78], [0x445], [0x2179], [0xFF58]]),
      (ascii ''y'', [[0x79], [0x443], [0x4AF], [0xFF59]]),
      (ascii ''z'', [[0x7A], [0x1D22], [0xFF5A]])]"

text \<open>
  The loops of \<^verbatim>\<open>generate_idn_variants\<close> add one string after the other and return as
  soon as \<^verbatim>\<open>len(variants) >= max_variants\<close>. \<open>add_until_cap\<close> is that pattern: the
  strings added so far (each once), and the strings the loops would add next, in order.
\<close>

fun add_until_cap :: "int \<Rightarrow> pystr list \<Rightarrow> pystr list \<Rightarrow> pystr list" where
  "add_until_cap max_variants variants [] = variants"
| "add_until_cap max_variants variants (v # vs) =
     (let variants' = (if v \<in> set variants then variants else variants @ [v])
      in if max_variants \<le> int (length variants') then variants'
         else add_until_cap max_variants variants' vs)"

text \<open>
  The first loop: one character replaced (\<open>dname\<close> is the source's \<^verbatim>\<open>domain_name\<close>,
  the first label). It walks the lowercased name.
\<close>

definition single_substitutions :: "(pystr \<Rightarrow> pystr) \<Rightarrow> pystr \<Rightarrow> pystr \<Rightarrow> pystr list" where
  "single_substitutions ulower dname tld =
     concat (map (\<lambda>i.
        case map_of HOMOGRAPHS [py_lower ulower dname ! i] of
          None \<Rightarrow> []
        | Some glyphs \<Rightarrow>
            map (\<lambda>homograph. fqdn (take i dname @ homograph @ drop (i + 1) dname) tld)
              glyphs)
       [0..<length (py_lower ulower dname)])"

text \<open>
  The second loop: two characters at most two apart replaced, each by one of the first
  two glyphs of its row.
\<close>

definition double_substitutions :: "(pystr \<Rightarrow> pystr) \<Rightarrow> pystr \<Rightarrow> pystr \<Rightarrow> pystr list" where
  "double_substitutions ulower dname tld =
     concat (map (\<lambda>i.
       concat (map (\<lambda>j.
         case (map_of HOMOGRAPHS (py_lower ulower [dname ! i]),
               map_of HOMOGRAPHS (py_lower ulower [dname ! j])) of
           (Some glyphs1, Some glyphs2) \<Rightarrow>
             concat (map (\<lambda>h1.
               map (\<lambda>h2. fqdn (take i dname @ h1 @ drop (i + 1) (take j dname)
                                  @ h2 @ drop (j + 1) dname) tld)
                 (take 2 glyphs2))
               (take 2 glyphs1))
         | _ \<Rightarrow> [])
        [i + 1..<min (i + 3) (length dname)]))
      [0..<length dname])"

definition generate_idn_variants :: "(pystr \<Rightarrow> pystr) \<Rightarrow> pystr \<Rightarrow> int \<Rightarrow> pystr set" where
  "generate_idn_variants ulower domain max_variants =
     (let parts = split_on 46 domain in
      if length parts < 2 then {}
      else
        (let dname = hd parts;
             tld = py_join (ascii ''.'') (tl parts)
         in set (add_until_cap max_variants []
                   (single_substitutions ulower dname tld
                    @ double_substitutions ulower dname tld))))"

text \<open>
  Every glyph of the two homograph tables (\<^verbatim>\<open>homographs\<close> of the typosquat generator
  and \<^verbatim>\<open>HOMOGRAPHS\<close> of the IDN generator).
\<close>

definition homograph_glyphs :: "codepoint list" where
  "homograph_glyphs = concat (concat (map snd homographs @ map snd HOMOGRAPHS))"

text \<open>
  What the proofs below need of the Unicode case tables behind \<^verbatim>\<open>str.lower()\<close>:
  lowercasing puts no whitespace at the end of a string that has none there, and a
  string keeps a code point beyond ASCII when it has one other than the Kelvin sign
  (U+212A, whose lowercase is the ASCII letter \<^verbatim>\<open>k\<close>).
\<close>

definition lowercase_tables :: "(pystr \<Rightarrow> pystr) \<Rightarrow> bool" where
  "lowercase_tables ulower =
     (\<forall>s. (s \<noteq> [] \<and> \<not> py_isspace (last s) \<and> ulower s \<noteq> []
              \<longrightarrow> \<not> py_isspace (last (ulower s)))
          \<and> ((\<exists>c \<in> set s. 128 \<le> c \<and> c \<noteq> 0x212A) \<longrightarrow> \<not> is_ascii (ulower s)))"

text \<open>The characters of the validator's grammar: letters, digits, hyphen and dot.\<close>

definition grammar_char :: "codepoint \<Rightarrow> bool" where
  "grammar_char c = (is_alnum c \<or> c = 45 \<or> c = 46)"

chapter \<open>Properties\<close>

section \<open>The validator's grammar\<close>

lemma split_on_nonempty: "split_on d s \<noteq> []"
  by (induction s) auto

lemma split_on_covers:
  "c \<in> set s \<Longrightarrow> c = d \<or> (\<exists>p \<in> set (split_on d s). c \<in> set p)"
proof (induction s)
  case Nil
  then show ?case by simp
next
  case (Cons a s)
  show ?case
  proof (cases "a = d")
    case True
    then show ?thesis using Cons by auto
  next
    case False
    have ne: "split_on d s \<noteq> []" by (rule split_on_nonempty)
    then obtain p ps where sp: "split_on d s = p # ps" by (cases "split_on d s") auto
    show ?thesis
    proof (cases "c = a")
      case True
      then show ?thesis using False sp by auto
    next
      case c: False
      then have "c \<in> set s" using Cons.prems by simp
      then have "c = d \<or> (\<exists>q \<in> set (split_on d s). c \<in> set q)" by (rule Cons.IH)
      then show ?thesis using False sp by auto
    qed
  qed
qed

lemma grammar_char_of_label: "label_ok p \<Longrightarrow> list_all grammar_char p"
  by (auto simp: label_ok_def grammar_char_def is_label_char_def list_all_iff)

lemma grammar_char_of_tld: "tld_ok p \<Longrightarrow> list_all grammar_char p"
  by (auto simp: tld_ok_def grammar_char_def is_alnum_def list_all_iff)

lemma fullmatch_grammar:
  assumes "domain_fullmatch s"
  shows "list_all grammar_char s"
proof -
  let ?ps = "split_on 46 s"
  have ne: "?ps \<noteq> []" by (rule split_on_nonempty)
  have labels: "list_all label_ok (butlast ?ps)" and tld: "tld_ok (last ?ps)"
    using assms by (simp_all add: domain_fullmatch_def Let_def)
  have parts: "list_all grammar_char p" if "p \<in> set ?ps" for p
  proof -
    have "?ps = butlast ?ps @ [last ?ps]" using ne by simp
    then have "p \<in> set (butlast ?ps) \<or> p = last ?ps"
      using that by (metis Un_iff empty_iff insert_iff list.set(1) list.set(2) set_append)
    then show ?thesis
      using labels tld grammar_char_of_label grammar_char_of_tld
      by (auto simp: list_all_iff)
  qed
  have "grammar_char c" if "c \<in> set s" for c
  proof -
    from split_on_covers[OF that, of 46]
    consider "c = 46" | p where "p \<in> set ?ps" "c \<in> set p" by auto
    then show ?thesis
    proof cases
      case 1
      then show ?thesis by (simp add: grammar_char_def)
    next
      case 2
      then show ?thesis using parts[of p] by (simp add: list_all_iff)
    qed
  qed
  then show ?thesis by (simp add: list_all_iff)
qed

lemma grammar_char_ascii: "grammar_char c \<Longrightarrow> c < 128"
  by (auto simp: grammar_char_def is_alnum_def is_alpha_def)

lemma valid_domain_ascii:
  assumes "is_valid_domain d"
  shows "is_ascii d"
proof -
  have m: "domain_regex_match d" and ne: "d \<noteq> []"
    using assms by (auto simp: is_valid_domain_def split: if_splits)
  show ?thesis
  proof (cases "domain_fullmatch d")
    case True
    then show ?thesis
      using fullmatch_grammar grammar_char_ascii by (auto simp: is_ascii_def list_all_iff)
  next
    case False
    then have l: "last d = 10" and b: "domain_fullmatch (butlast d)"
      using m by (auto simp: domain_regex_match_def)
    have "d = butlast d @ [last d]" using ne by simp
    then have "set d = set (butlast d) \<union> {10}"
      using l by (metis Un_insert_right list.set(1) list.set(2) set_append sup_bot.right_neutral)
    then show ?thesis
      using fullmatch_grammar[OF b] grammar_char_ascii by (auto simp: is_ascii_def list_all_iff)
  qed
qed

lemma valid_domain_grammar:
  assumes "is_valid_domain d" and "last d \<noteq> 10"
  shows "list_all grammar_char d"
  using assms fullmatch_grammar
  by (auto simp: is_valid_domain_def domain_regex_match_def split: if_splits)

text \<open>A valid name is made of the grammar's characters, but for a newline at its end.\<close>

lemma valid_domain_chars:
  assumes "is_valid_domain d" and "c \<in> set d"
  shows "grammar_char c \<or> c = 10"
proof -
  have m: "domain_regex_match d" and ne: "d \<noteq> []"
    using assms(1) by (auto simp: is_valid_domain_def split: if_splits)
  show ?thesis
  proof (cases "domain_fullmatch d")
    case True
    then show ?thesis using fullmatch_grammar assms(2) by (auto simp: list_all_iff)
  next
    case False
    then have l: "last d = 10" and b: "domain_fullmatch (butlast d)"
      using m by (auto simp: domain_regex_match_def)
    have "d = butlast d @ [last d]" using ne by simp
    then have "set d = set (butlast d) \<union> {10}"
      using l by (metis Un_insert_right list.set(1) list.set(2) set_append sup_bot.right_neutral)
    then show ?thesis
      using fullmatch_grammar[OF b] assms(2) by (auto simp: list_all_iff)
  qed
qed

section \<open>Saving with deduplication\<close>

lemma has_domain_iff:
  "has_domain s k \<longleftrightarrow>
     (\<exists>row. row \<in> set (discovered_domains s) \<and> col_domain_name row = k)"
  by (simp add: has_domain_def find_None_iff)

text \<open>What the columns store.\<close>

lemma varchar_fits: "encodable v \<Longrightarrow> length v \<le> n \<Longrightarrow> varchar n v = Some v"
  by (simp add: varchar_def)

lemma nullable_fits:
  "(\<And>x. v = Some x \<Longrightarrow> column x = Some x) \<Longrightarrow> nullable column v = Some v"
  by (cases v) (simp_all add: nullable_def)

lemma grammar_char_stored: "grammar_char c \<or> c = 10 \<Longrightarrow> c \<noteq> 0 \<and> c < 128 \<and> c \<noteq> 32"
  by (auto simp: grammar_char_def is_alnum_def is_alpha_def)

lemma valid_domain_encodable:
  assumes "is_valid_domain d"
  shows "encodable d"
proof -
  have "c \<noteq> 0 \<and> \<not> (0xD800 \<le> c \<and> c \<le> 0xDFFF)" if "c \<in> set d" for c
    using grammar_char_stored[OF valid_domain_chars[OF assms that]] by simp
  then show ?thesis by (simp add: encodable_def list_all_iff)
qed

lemma valid_domain_no_space:
  assumes "is_valid_domain d" and "c \<in> set d"
  shows "c \<noteq> 32"
  using grammar_char_stored[OF valid_domain_chars[OF assms]] by simp

text \<open>A valid name is stored as it is, when it has at most 255 characters.\<close>

lemma varchar_valid_domain:
  assumes "is_valid_domain d"
  shows "varchar n d = (if length d \<le> n then Some d else None)"
proof (cases "length d \<le> n")
  case True
  then show ?thesis using valid_domain_encodable[OF assms] by (simp add: varchar_def)
next
  case False
  then have "drop n d \<noteq> []" by simp
  then obtain c where c: "c \<in> set (drop n d)" by (cases "drop n d") auto
  then have "c \<in> set d" by (rule in_set_dropD)
  then have "c \<noteq> 32" by (rule valid_domain_no_space[OF assms])
  then have "\<not> list_all (\<lambda>c. c = 32) (drop n d)" using c by (auto simp: list_all_iff)
  then show ?thesis using False by (simp add: varchar_def)
qed

lemma new_entry_domain_name:
  assumes "new_entry s c dn = Some row" and "is_valid_domain dn"
  shows "col_domain_name row = dn" and "length dn \<le> 255"
proof -
  from assms(1) obtain v where v: "varchar 255 dn = Some v" and r: "col_domain_name row = v"
    by (auto simp: new_entry_def bind_eq_Some_conv)
  from v show "length dn \<le> 255"
    unfolding varchar_valid_domain[OF assms(2)] by (simp split: if_splits)
  from v r show "col_domain_name row = dn"
    unfolding varchar_valid_domain[OF assms(2)] by (simp split: if_splits)
qed

text \<open>
  The entry of a candidate is stored when it names its target, every text has a place
  in its column, and the crawler's name fits \<^verbatim>\<open>source_of_detection\<close>.
\<close>

lemma new_entry_stored:
  assumes "is_valid_domain dn" and "length dn \<le> 255"
      and "\<And>x. url c = Some x \<Longrightarrow> encodable x"
      and "target_cse_name c = Some tn" and "encodable tn" and "length tn \<le> 255"
      and "target_cse_domain c = Some td" and "encodable td" and "length td \<le> 255"
      and "encodable (name s)" and "length (name s) \<le> 100"
      and "\<And>x. discovery_method c = Some x \<Longrightarrow> encodable x \<and> length x \<le> 100"
      and "\<And>x. idn_original c = Some x \<Longrightarrow> encodable x \<and> length x \<le> 255"
  shows "new_entry s c dn \<noteq> None"
proof -
  have 1: "varchar 255 dn = Some dn"
    using assms(1,2) by (simp add: varchar_valid_domain)
  have 2: "nullable text_column (url c) = Some (url c)"
    by (rule nullable_fits) (simp add: text_column_def assms(3))
  have 3: "varchar 255 tn = Some tn" using assms(5,6) by (rule varchar_fits)
  have 4: "varchar 255 td = Some td" using assms(8,9) by (rule varchar_fits)
  have 5: "varchar 100 (name s) = Some (name s)" using assms(10,11) by (rule varchar_fits)
  have 6: "nullable (varchar 100) (discovery_method c) = Some (discovery_method c)"
    by (rule nullable_fits) (simp add: varchar_fits assms(12))
  have 7: "nullable (varchar 255) (idn_original c) = Some (idn_original c)"
    by (rule nullable_fits) (simp add: varchar_fits assms(13))
  show ?thesis
    by (simp add: new_entry_def 1 2 3 4 5 6 7 assms(4,7))
qed

text \<open>A save either changes nothing or appends one entry under the normalized name.\<close>

lemma save_domain_cases:
  "save_domain ulower s c = (False, s) \<or>
   (\<exists>row. is_valid_domain (normalize_domain ulower (domain_name c))
      \<and> \<not> has_domain s (normalize_domain ulower (domain_name c))
      \<and> new_entry s c (normalize_domain ulower (domain_name c)) = Some row
      \<and> col_domain_name row = normalize_domain ulower (domain_name c)
      \<and> save_domain ulower s c =
      (True, s\<lparr> discovered_domains := discovered_domains s @ [row],
         domains_found := domains_found s @ [normalize_domain ulower (domain_name c)] \<rparr>))"
proof -
  let ?dn = "normalize_domain ulower (domain_name c)"
  show ?thesis
  proof (cases "is_valid_domain ?dn \<and> \<not> has_domain s ?dn")
    case False
    then have "save_domain ulower s c = (False, s)"
      by (auto simp: save_domain_def Let_def has_domain_def split: option.split)
    then show ?thesis by simp
  next
    case True
    then have f: "find (\<lambda>row. col_domain_name row = ?dn) (discovered_domains s) = None"
      by (simp add: has_domain_def)
    show ?thesis
    proof (cases "new_entry s c ?dn")
      case None
      then have "save_domain ulower s c = (False, s)"
        using True f by (simp add: save_domain_def Let_def)
      then show ?thesis by simp
    next
      case (Some row)
      have "save_domain ulower s c =
              (True, s\<lparr> discovered_domains := discovered_domains s @ [row],
                 domains_found := domains_found s @ [?dn] \<rparr>)"
        using True f Some by (simp add: save_domain_def Let_def)
      moreover have "col_domain_name row = ?dn"
        using Some True by (simp add: new_entry_domain_name(1))
      ultimately show ?thesis using True Some by blast
    qed
  qed
qed

lemma save_domain_keeps_key:
  "has_domain s k \<Longrightarrow> has_domain (snd (save_domain ulower s c)) k"
  using save_domain_cases[of ulower s c] by (auto simp: has_domain_iff)

lemma save_all_keeps_key:
  "has_domain s k \<Longrightarrow> has_domain (save_all ulower s cs) k"
  by (induction cs arbitrary: s) (simp_all add: save_domain_keeps_key)

lemma save_domain_first:
  assumes "is_valid_domain (normalize_domain ulower (domain_name c))"
      and "\<not> has_domain s (normalize_domain ulower (domain_name c))"
      and "new_entry s c (normalize_domain ulower (domain_name c)) = Some row"
  shows "save_domain ulower s c =
      (True, s\<lparr> discovered_domains := discovered_domains s @ [row],
         domains_found := domains_found s @ [normalize_domain ulower (domain_name c)] \<rparr>)"
  using assms unfolding save_domain_def Let_def has_domain_def by simp

lemma save_domain_dup:
  "has_domain s (normalize_domain ulower (domain_name c)) \<Longrightarrow>
   save_domain ulower s c = (False, s)"
  unfolding save_domain_def Let_def has_domain_def by (auto split: option.split)

lemma normalize_upper_example:
  "normalize_domain ulower (Some (ascii ''EXAMPLE.com'')) = ascii ''example.com''"
  by (simp add: normalize_domain_def py_lower_def py_strip_def ascii_def is_ascii_def
      py_isspace_def ascii_lower_def)

lemma normalize_trailing_space_example:
  "normalize_domain ulower (Some (ascii ''example.com '')) = ascii ''example.com''"
  by (simp add: normalize_domain_def py_lower_def py_strip_def ascii_def is_ascii_def
      py_isspace_def ascii_lower_def)

lemma valid_example_com: "is_valid_domain (ascii ''example.com'')"
  by (simp add: is_valid_domain_def domain_regex_match_def domain_fullmatch_def label_ok_def
      tld_ok_def is_label_char_def is_alnum_def is_alpha_def ascii_def)

text \<open>The entry of an example candidate is stored under every crawler name that fits.\<close>

lemma example_candidate_stored:
  assumes "is_valid_domain dn" and "length dn \<le> 255"
      and "encodable d" and "encodable (name s)" and "length (name s) \<le> 100"
  shows "new_entry s (example_candidate d) dn \<noteq> None"
proof (rule new_entry_stored[OF assms(1,2)])
  show "\<And>x. url (example_candidate d) = Some x \<Longrightarrow> encodable x"
    using assms(3) by (auto simp: example_candidate_def encodable_def ascii_def)
  show "target_cse_name (example_candidate d) = Some (ascii ''Example'')"
    by (simp add: example_candidate_def)
  show "target_cse_domain (example_candidate d) = Some (ascii ''example.org'')"
    by (simp add: example_candidate_def)
  show "encodable (ascii ''Example'')" "length (ascii ''Example'') \<le> 255"
       "encodable (ascii ''example.org'')" "length (ascii ''example.org'') \<le> 255"
    by (simp_all add: encodable_def ascii_def)
  show "encodable (name s)" "length (name s) \<le> 100" by (rule assms(4), rule assms(5))
  show "\<And>x. discovery_method (example_candidate d) = Some x \<Longrightarrow> encodable x \<and> length x \<le> 100"
    by (auto simp: example_candidate_def encodable_def ascii_def)
  show "\<And>x. idn_original (example_candidate d) = Some x \<Longrightarrow> encodable x \<and> length x \<le> 255"
    by (simp add: example_candidate_def)
qed

lemma whois_name_fits:
  "encodable (name (new_crawler (ascii ''whois'')))"
  "length (name (new_crawler (ascii ''whois''))) \<le> 100"
  by (simp_all add: new_crawler_def encodable_def ascii_def)

text \<open>
  Claim C3 as stated, for any valid domain name: the first save returns \<open>True\<close>. The
  candidate that carries the valid name \<^verbatim>\<open>example.com\<close> and nothing else is not saved
  into an empty table: \<^verbatim>\<open>target_cse_name\<close> and \<^verbatim>\<open>target_cse_domain\<close> are
  \<^verbatim>\<open>nullable=False\<close> columns, the commit raises and \<^verbatim>\<open>save_domain\<close> returns \<open>False\<close>.
\<close>

theorem save_domain_first_save_refused:
  "is_valid_domain (normalize_domain id (domain_name (bare_candidate (ascii ''example.com'')))) \<and>
   \<not> has_domain (new_crawler (ascii ''whois''))
       (normalize_domain id (domain_name (bare_candidate (ascii ''example.com'')))) \<and>
   save_domain id (new_crawler (ascii ''whois'')) (bare_candidate (ascii ''example.com''))
     = (False, new_crawler (ascii ''whois''))"
proof -
  have n: "normalize_domain id (domain_name (bare_candidate (ascii ''example.com'')))
             = ascii ''example.com''"
    by (simp add: bare_candidate_def normalize_domain_def py_lower_def py_strip_def ascii_def
        is_ascii_def py_isspace_def ascii_lower_def)
  have fresh: "\<not> has_domain (new_crawler (ascii ''whois'')) (ascii ''example.com'')"
    by (simp add: has_domain_def new_crawler_def)
  have none: "new_entry (new_crawler (ascii ''whois'')) (bare_candidate (ascii ''example.com''))
                (ascii ''example.com'') = None"
    by (simp add: new_entry_def bare_candidate_def)
  have "save_domain id (new_crawler (ascii ''whois'')) (bare_candidate (ascii ''example.com''))
          = (False, new_crawler (ascii ''whois''))"
    using fresh none valid_example_com
    by (simp add: save_domain_def Let_def n has_domain_def)
  then show ?thesis using fresh valid_example_com by (simp add: n)
qed

text \<open>
  Claim C3, amended: \<^verbatim>\<open>save_domain\<close> is idempotent on the normalized key, for a
  candidate that the table can store. Let \<open>k\<close> be a valid domain name that the table does
  not hold yet, and \<open>c\<close> a candidate whose name trims and lowercases to \<open>k\<close> and whose entry
  meets the constraints of the table's columns (\<open>new_entry\<close> gives an entry: the
  candidate carries the target name and target domain that the table requires, and each
  text fits the length of its column, as lemma \<open>new_entry_stored\<close> spells out). Then
  saving \<open>c\<close> returns \<open>True\<close>; and after any further saves \<open>cs\<close>, saving any candidate \<open>c'\<close>
  whose name trims and lowercases to \<open>k\<close> returns \<open>False\<close> and leaves the state (the table
  and the crawler's list of found domains) as it was.
\<close>

theorem save_domain_idempotent:
  assumes "is_valid_domain k"
      and "normalize_domain ulower (domain_name c) = k"
      and "\<not> has_domain s k"
      and "new_entry s c k \<noteq> None"
      and "normalize_domain ulower (domain_name c') = k"
  shows "fst (save_domain ulower s c) = True \<and>
         save_domain ulower (save_all ulower (snd (save_domain ulower s c)) cs) c'
           = (False, save_all ulower (snd (save_domain ulower s c)) cs)"
proof -
  obtain row where f: "new_entry s c (normalize_domain ulower (domain_name c)) = Some row"
    using assms(2,4) by auto
  have v: "is_valid_domain (normalize_domain ulower (domain_name c))"
    using assms(1,2) by simp
  have n: "\<not> has_domain s (normalize_domain ulower (domain_name c))"
    using assms(2,3) by simp
  note first = save_domain_first[OF v n f]
  let ?s1 = "snd (save_domain ulower s c)"
  have "col_domain_name row = k"
    using new_entry_domain_name(1)[OF f v] assms(2) by simp
  then have "has_domain ?s1 k"
    unfolding first has_domain_iff by auto
  then have "has_domain (save_all ulower ?s1 cs) k"
    by (rule save_all_keeps_key)
  then have "has_domain (save_all ulower ?s1 cs) (normalize_domain ulower (domain_name c'))"
    unfolding assms(5) .
  then have "save_domain ulower (save_all ulower ?s1 cs) c' = (False, save_all ulower ?s1 cs)"
    by (rule save_domain_dup)
  moreover have "fst (save_domain ulower s c) = True"
    unfolding first by simp
  ultimately show ?thesis by blast
qed

text \<open>
  The example of the claim: \<^verbatim>\<open>"EXAMPLE.com"\<close> is saved, and \<^verbatim>\<open>"example.com "\<close>,
  which normalizes to the same key, is then a duplicate.
\<close>

theorem save_domain_idempotent_witness:
  "normalize_domain id (Some (ascii ''EXAMPLE.com'')) = ascii ''example.com'' \<and>
   normalize_domain id (Some (ascii ''example.com '')) = ascii ''example.com'' \<and>
   new_entry (new_crawler (ascii ''whois'')) (example_candidate (ascii ''EXAMPLE.com''))
     (ascii ''example.com'') \<noteq> None \<and>
   fst (save_domain id (new_crawler (ascii ''whois'')) (example_candidate (ascii ''EXAMPLE.com'')))
     = True \<and>
   save_domain id
     (snd (save_domain id (new_crawler (ascii ''whois'')) (example_candidate (ascii ''EXAMPLE.com''))))
     (example_candidate (ascii ''example.com ''))
   = (False,
      snd (save_domain id (new_crawler (ascii ''whois'')) (example_candidate (ascii ''EXAMPLE.com''))))"
proof -
  have n1: "normalize_domain id (domain_name (example_candidate (ascii ''EXAMPLE.com'')))
              = ascii ''example.com''"
    by (simp add: example_candidate_def normalize_upper_example)
  have n2: "normalize_domain id (domain_name (example_candidate (ascii ''example.com '')))
              = ascii ''example.com''"
    by (simp add: example_candidate_def normalize_trailing_space_example)
  have fresh: "\<not> has_domain (new_crawler (ascii ''whois'')) (ascii ''example.com'')"
    by (simp add: has_domain_def new_crawler_def)
  have stored: "new_entry (new_crawler (ascii ''whois'')) (example_candidate (ascii ''EXAMPLE.com''))
                  (ascii ''example.com'') \<noteq> None"
    by (rule example_candidate_stored[OF valid_example_com _ _ whois_name_fits])
       (simp_all add: encodable_def ascii_def)
  from save_domain_idempotent[OF valid_example_com n1 fresh stored n2, of "[]"] stored
  show ?thesis
    by (simp add: normalize_upper_example normalize_trailing_space_example)
qed

section \<open>The variant generator\<close>


lemma walks_sets_reversed_walk: "walks_sets reversed_walk"
  by (simp add: walks_sets_def reversed_walk_def)

lemma generate_all_variants_untruncated:
  assumes "int (card (set (operator_variants ulower (part_domain (ex d)) (part_suffix (ex d)))))
             \<le> max_variants"
  shows "generate_all_variants set_order ulower ex d max_variants =
           set (operator_variants ulower (part_domain (ex d)) (part_suffix (ex d)))"
  using assms by (simp add: generate_all_variants_def Let_def)

lemma generate_all_variants_truncated:
  assumes "max_variants <
             int (card (set (operator_variants ulower (part_domain (ex d)) (part_suffix (ex d)))))"
  shows "generate_all_variants set_order ulower ex d max_variants =
           set (py_slice_to
             (set_order (set (operator_variants ulower (part_domain (ex d)) (part_suffix (ex d)))))
             max_variants)"
  using assms by (simp add: generate_all_variants_def Let_def)

lemma card_set_take_le: "card (set (take n xs)) \<le> n"
proof -
  have "card (set (take n xs)) \<le> length (take n xs)" by (rule card_length)
  also have "\<dots> \<le> n" by simp
  finally show ?thesis .
qed

lemma tld_variation_in_operators:
  "tld \<in> set COMMON_TLDS \<Longrightarrow> fqdn base tld \<in> set (operator_variants ulower base original_tld)"
  by (auto simp: operator_variants_def tld_variations_def)

lemma com_in_COMMON_TLDS: "ascii ''com'' \<in> set COMMON_TLDS"
  by (simp add: COMMON_TLDS_def)

lemma net_in_COMMON_TLDS: "ascii ''net'' \<in> set COMMON_TLDS"
  by (simp add: COMMON_TLDS_def)

lemma split_acmebank:
  "part_domain (split_last_dot (ascii ''acmebank.com'')) = ascii ''acmebank''"
  "part_suffix (split_last_dot (ascii ''acmebank.com'')) = ascii ''com''"
  by (simp_all add: split_last_dot_def ascii_def)

lemma split_x:
  "part_domain (split_last_dot (ascii ''x.com'')) = ascii ''x''"
  "part_suffix (split_last_dot (ascii ''x.com'')) = ascii ''com''"
  by (simp_all add: split_last_dot_def ascii_def)

lemmas operator_defs =
  operator_variants_def character_omission_def character_repetition_def
  character_substitution_def character_insertion_def insertion_chars_def character_swap_def
  keyboard_typos_def
  homograph_variants_def tld_variations_def hyphenation_def prefix_suffix_def
  COMMON_TLDS_def CHAR_SUBSTITUTIONS_def KEYBOARD_ADJACENCY_def homographs_def
  prefixes_def suffixes_def py_lower_def is_ascii_def ascii_lower_def ascii_def fqdn_def

lemma length_operators_acmebank:
  "length (operator_variants ulower (ascii ''acmebank'') (ascii ''com'')) = 466"
  by (simp add: operator_defs upt_rec)

lemma length_operators_x:
  "length (operator_variants ulower (ascii ''x'') (ascii ''com'')) = 143"
  by (simp add: operator_defs upt_rec)

lemma card_operators_acmebank:
  "card (set (operator_variants ulower (ascii ''acmebank'') (ascii ''com''))) \<le> 466"
  using card_length[of "operator_variants ulower (ascii ''acmebank'') (ascii ''com'')"]
  by (simp only: length_operators_acmebank)

lemma card_operators_x:
  "card (set (operator_variants ulower (ascii ''x'') (ascii ''com''))) \<le> 143"
  using card_length[of "operator_variants ulower (ascii ''x'') (ascii ''com'')"]
  by (simp only: length_operators_x)

text \<open>
  Claim C2 says that \<^verbatim>\<open>generate_all_variants\<close> never returns the seed itself. The code
  at the seed \<^verbatim>\<open>acmebank.com\<close> with the default cap 1000: the ten operators add 466
  strings, so nothing is truncated, and \<^verbatim>\<open>_tld_variations\<close> pairs the unchanged label
  with every entry of \<^verbatim>\<open>COMMON_TLDS\<close>, \<^verbatim>\<open>com\<close> included. The seed is in the result,
  whatever the iteration order of the set and whatever the Unicode case tables.
\<close>

theorem generate_all_variants_returns_seed:
  "ascii ''acmebank.com'' \<in>
     generate_all_variants set_order ulower split_last_dot (ascii ''acmebank.com'') 1000"
proof -
  have "int (card (set (operator_variants ulower
            (part_domain (split_last_dot (ascii ''acmebank.com'')))
            (part_suffix (split_last_dot (ascii ''acmebank.com'')))))) \<le> 1000"
    unfolding split_acmebank using card_operators_acmebank[of ulower] by simp
  then have "generate_all_variants set_order ulower split_last_dot (ascii ''acmebank.com'') 1000
      = set (operator_variants ulower (ascii ''acmebank'') (ascii ''com''))"
    by (simp add: generate_all_variants_untruncated split_acmebank)
  moreover have "fqdn (ascii ''acmebank'') (ascii ''com'')
      \<in> set (operator_variants ulower (ascii ''acmebank'') (ascii ''com''))"
    by (rule tld_variation_in_operators[OF com_in_COMMON_TLDS])
  moreover have "fqdn (ascii ''acmebank'') (ascii ''com'') = ascii ''acmebank.com''"
    by (simp add: fqdn_def ascii_def)
  ultimately show ?thesis by simp
qed

text \<open>
  Claim C5. For every seed domain and every cap \<^verbatim>\<open>max_variants\<close>, the number of strings
  that \<^verbatim>\<open>generate_all_variants\<close> returns is at most \<^verbatim>\<open>max_variants\<close>, whatever the
  iteration order of the set. The cap is a bound on a number of strings, hence not
  negative: no set has fewer than zero strings.
\<close>

theorem generate_all_variants_within_cap:
  assumes "0 \<le> max_variants"
  shows "int (card (generate_all_variants set_order ulower ex d max_variants)) \<le> max_variants"
proof (cases "max_variants <
    int (card (set (operator_variants ulower (part_domain (ex d)) (part_suffix (ex d)))))")
  case True
  have "card (set (take (nat max_variants)
      (set_order (set (operator_variants ulower (part_domain (ex d)) (part_suffix (ex d)))))))
      \<le> nat max_variants"
    by (rule card_set_take_le)
  then show ?thesis
    using assms by (simp add: generate_all_variants_truncated[where ex=ex and d=d, OF True] py_slice_to_def)
next
  case False
  then show ?thesis by (simp add: generate_all_variants_untruncated)
qed

theorem generate_all_variants_within_cap_witness:
  "(0::int) \<le> 150 \<and>
   int (card (generate_all_variants sorted_walk id split_last_dot (ascii ''acmebank.com'') 150))
     \<le> 150"
  using generate_all_variants_within_cap[of 150 sorted_walk id split_last_dot "ascii ''acmebank.com''"]
  by simp


lemma hd_neq_last: "distinct xs \<Longrightarrow> 2 \<le> length xs \<Longrightarrow> hd xs \<noteq> last xs"
  by (cases xs) auto

lemma truncation_follows_walk:
  assumes "2 \<le> card (set (operator_variants ulower (part_domain (ex d)) (part_suffix (ex d))))"
  shows "generate_all_variants sorted_walk ulower ex d 1 \<noteq>
         generate_all_variants reversed_walk ulower ex d 1"
proof -
  let ?V = "set (operator_variants ulower (part_domain (ex d)) (part_suffix (ex d)))"
  let ?xs = "sorted_list_of_set ?V"
  have len: "length ?xs = card ?V" by simp
  then have ne: "?xs \<noteq> []" using assms by auto
  have d: "distinct ?xs" by simp
  have t: "1 < int (card ?V)" using assms by simp
  have a: "generate_all_variants sorted_walk ulower ex d 1 = {hd ?xs}"
    using ne by (simp add: generate_all_variants_truncated[where ex=ex and d=d, OF t] py_slice_to_def sorted_walk_def
        take_Suc del: set_sorted_list_of_set)
  have b: "generate_all_variants reversed_walk ulower ex d 1 = {last ?xs}"
    using ne by (simp add: generate_all_variants_truncated[where ex=ex and d=d, OF t] py_slice_to_def reversed_walk_def
        take_Suc hd_rev del: set_sorted_list_of_set)
  have "hd ?xs \<noteq> last ?xs"
    using d len assms by (intro hd_neq_last) simp_all
  then show ?thesis unfolding a b by simp
qed

lemma two_variants_acmebank:
  "2 \<le> card (set (operator_variants ulower (ascii ''acmebank'') (ascii ''com'')))"
proof -
  let ?V = "set (operator_variants ulower (ascii ''acmebank'') (ascii ''com''))"
  have "fqdn (ascii ''acmebank'') (ascii ''com'') \<in> ?V"
    by (rule tld_variation_in_operators[OF com_in_COMMON_TLDS])
  moreover have "fqdn (ascii ''acmebank'') (ascii ''net'') \<in> ?V"
    by (rule tld_variation_in_operators[OF net_in_COMMON_TLDS])
  ultimately have "{fqdn (ascii ''acmebank'') (ascii ''com''), fqdn (ascii ''acmebank'') (ascii ''net'')}
      \<subseteq> ?V" by simp
  then have "card {fqdn (ascii ''acmebank'') (ascii ''com''), fqdn (ascii ''acmebank'') (ascii ''net'')}
      \<le> card ?V" by (intro card_mono) simp_all
  moreover have "fqdn (ascii ''acmebank'') (ascii ''com'') \<noteq> fqdn (ascii ''acmebank'') (ascii ''net'')"
    by (simp add: fqdn_def ascii_def)
  ultimately show ?thesis by simp
qed

text \<open>
  Claim C8 as stated: two runs with the same seed and the same cap return the same set,
  also when the union is truncated. The truncation keeps the first \<^verbatim>\<open>max_variants\<close>
  strings of \<^verbatim>\<open>list(variants)\<close>, and two runs may walk the same set in different
  orders. With cap 1 at \<^verbatim>\<open>acmebank.com\<close>, a run that walks the set in sorted order
  and a run that walks it in the reverse order return different sets.
\<close>

theorem generate_all_variants_walk_dependent:
  "generate_all_variants sorted_walk id split_last_dot (ascii ''acmebank.com'') 1 \<noteq>
   generate_all_variants reversed_walk id split_last_dot (ascii ''acmebank.com'') 1"
  by (rule truncation_follows_walk) (simp only: split_acmebank two_variants_acmebank)

text \<open>
  Claim C8, amended: two runs of \<^verbatim>\<open>generate_all_variants\<close> with the same seed and the
  same cap return the same set of strings whenever the union of all operators has at most
  \<^verbatim>\<open>max_variants\<close> strings, whatever order each run walks the set in. (When the union
  exceeds the cap, the strings that survive are decided by the iteration order of the
  set.)
\<close>

theorem generate_all_variants_deterministic_untruncated:
  assumes "int (card (set (operator_variants ulower (part_domain (ex d)) (part_suffix (ex d)))))
             \<le> max_variants"
  shows "generate_all_variants walk1 ulower ex d max_variants =
         generate_all_variants walk2 ulower ex d max_variants"
  using assms by (simp add: generate_all_variants_untruncated)

theorem generate_all_variants_deterministic_untruncated_witness:
  "int (card (set (operator_variants id (part_domain (split_last_dot (ascii ''x.com'')))
       (part_suffix (split_last_dot (ascii ''x.com'')))))) \<le> 150 \<and>
   generate_all_variants sorted_walk id split_last_dot (ascii ''x.com'') 150 =
   generate_all_variants reversed_walk id split_last_dot (ascii ''x.com'') 150"
proof -
  have h: "int (card (set (operator_variants id (part_domain (split_last_dot (ascii ''x.com'')))
       (part_suffix (split_last_dot (ascii ''x.com'')))))) \<le> 150"
    unfolding split_x using card_operators_x[of id] by simp
  from generate_all_variants_deterministic_untruncated[where ex=split_last_dot and d="ascii ''x.com''", OF h] h show ?thesis by blast
qed

lemma length_insertion_chars: "length insertion_chars = 36"
  by (simp add: insertion_chars_def ascii_def)

lemma insertion_filter:
  assumes "i \<le> length d"
  shows "filter (\<lambda>variant. length variant \<le> 63) (map (\<lambda>char. take i d @ [char] @ drop i d) cs)
         = (if length d < 63 then map (\<lambda>char. take i d @ [char] @ drop i d) cs else [])"
  using assms by (induction cs) auto

lemma character_insertion_alt:
  "character_insertion d tld =
     (if length d < 63
      then concat (map (\<lambda>i. map (\<lambda>char. fqdn (take i d @ [char] @ drop i d) tld) insertion_chars)
             [0..<length d + 1])
      else concat (map (\<lambda>i. []) [0..<length d + 1]))"
proof -
  have "\<And>i. i \<in> set [0..<length d + 1] \<Longrightarrow> i \<le> length d" by auto
  then show ?thesis
    unfolding character_insertion_def insertion_chars_def
    by (auto simp: insertion_filter cong: map_cong intro!: arg_cong[where f=concat])
qed

lemma length_concat_const:
  "(\<And>x. x \<in> set xs \<Longrightarrow> length (f x) = k) \<Longrightarrow> length (concat (map f xs)) = k * length xs"
  by (induction xs) auto

lemma length_character_insertion:
  "length (character_insertion d tld) = (if length d < 63 then 36 * (length d + 1) else 0)"
  by (simp add: character_insertion_alt length_concat_const[where k=36] length_concat_const[where k=0]
      length_insertion_chars del: upt_Suc)

lemma character_insertion_member:
  assumes "length d < 63" and "i \<le> length d" and "char \<in> set insertion_chars"
  shows "fqdn (take i d @ [char] @ drop i d) tld \<in> set (character_insertion d tld)"
  using assms by (auto simp: character_insertion_alt simp del: upt_Suc)

lemma distinct_insertion_chars: "distinct insertion_chars"
  by (simp add: insertion_chars_def ascii_def)

lemma card_character_insertion_ge:
  assumes "length d < 63"
  shows "36 \<le> card (set (character_insertion d tld))"
proof -
  let ?f = "\<lambda>char. fqdn (take 0 d @ [char] @ drop 0 d) tld"
  have sub: "?f ` set insertion_chars \<subseteq> set (character_insertion d tld)"
    using character_insertion_member[OF assms, of 0] by auto
  have "inj_on ?f (set insertion_chars)"
    by (rule inj_onI) (simp add: fqdn_def)
  then have "card (?f ` set insertion_chars) = card (set insertion_chars)"
    by (rule card_image)
  also have "\<dots> = 36"
    using distinct_card[OF distinct_insertion_chars] length_insertion_chars by simp
  finally have "card (?f ` set insertion_chars) = 36" .
  moreover have "card (?f ` set insertion_chars) \<le> card (set (character_insertion d tld))"
    by (rule card_mono[OF _ sub]) simp
  ultimately show ?thesis by simp
qed


text \<open>
  Claim C7 as stated: the insertion operator stops once the number of variants reaches
  the cap. \<^verbatim>\<open>_character_insertion\<close> receives no cap and has no early exit. For the
  label \<^verbatim>\<open>acmebank\<close> it makes 324 additions, at least 36 of them distinct, so it does
  not stop at a cap of 10.
\<close>

theorem character_insertion_exceeds_cap:
  "\<not> card (set (character_insertion (ascii ''acmebank'') (ascii ''com''))) \<le> 10"
proof -
  have "length (ascii ''acmebank'') < 63" by (simp add: ascii_def)
  from card_character_insertion_ge[OF this, of "ascii ''com''"] show ?thesis by simp
qed

text \<open>
  Claim C7, amended: the insertion operator is not bounded by \<^verbatim>\<open>max_variants\<close>. For a
  label of fewer than 63 characters it adds, for every position and every one of the 36
  letters and digits, the label with that character inserted there: \<open>36 * (n + 1)\<close>
  additions for a label of \<open>n\<close> characters. The cap only truncates the union of all
  operators afterwards.
\<close>

theorem character_insertion_complete:
  assumes "length d < 63" and "i \<le> length d" and "char \<in> set insertion_chars"
  shows "fqdn (take i d @ [char] @ drop i d) tld \<in> set (character_insertion d tld) \<and>
         length (character_insertion d tld) = 36 * (length d + 1)"
  using assms character_insertion_member[OF assms] by (simp add: length_character_insertion)

theorem character_insertion_complete_witness:
  "length (ascii ''acmebank'') < 63 \<and> 3 \<le> length (ascii ''acmebank'') \<and>
   of_char CHR ''x'' \<in> set insertion_chars \<and>
   ascii ''acmxebank.com'' \<in> set (character_insertion (ascii ''acmebank'') (ascii ''com'')) \<and>
   length (character_insertion (ascii ''acmebank'') (ascii ''com'')) = 324"
proof -
  have a: "length (ascii ''acmebank'') < 63" by (simp add: ascii_def)
  have b: "3 \<le> length (ascii ''acmebank'')" by (simp add: ascii_def)
  have c: "of_char CHR ''x'' \<in> set insertion_chars" by (simp add: insertion_chars_def ascii_def)
  have e: "fqdn (take 3 (ascii ''acmebank'') @ [of_char CHR ''x''] @ drop 3 (ascii ''acmebank''))
             (ascii ''com'') = ascii ''acmxebank.com''"
    by (simp add: fqdn_def ascii_def)
  have l: "36 * (length (ascii ''acmebank'') + 1) = 324" by (simp add: ascii_def)
  from character_insertion_complete[OF a b c, of "ascii ''com''"] a b c show ?thesis
    unfolding e l by blast
qed

section \<open>The rate limiter\<close>


lemma in_window_mono:
  assumes "t \<le> t'"
  shows "in_window self t' \<le> in_window self t"
proof -
  have "length (filter (\<lambda>x. t' - x < period self) xs) \<le> length (filter (\<lambda>x. t - x < period self) xs)"
    for xs using assms by (induction xs) auto
  then show ?thesis by (simp add: in_window_def)
qed

lemma length_filter_pruned_le:
  "length (filter Q (filter P xs)) \<le> length (filter P xs)"
  by (rule length_filter_le)

lemma length_filter_drop_head:
  assumes "\<not> Q x"
  shows "Suc (length (filter Q (x # xs))) \<le> length (x # xs)"
  using assms length_filter_le[of Q xs] by simp

text \<open>
  The limiter with \<^verbatim>\<open>calls=0\<close>: the pruned list is empty, \<^verbatim>\<open>len(...) >= 0\<close> holds, and
  \<^verbatim>\<open>self.timestamps[0]\<close> raises. Nothing is recorded, and nothing is subtracted.
\<close>

lemma enter_zero_calls:
  "enter fsub (RateLimiter 0 p) now after = (Inl IndexError, RateLimiter 0 p)"
  by (simp add: enter_def RateLimiter_def)

text \<open>
  Where a float subtraction rounds, the entry differs from the one computed in exact
  arithmetic. A timestamp \<open>t\<close> so little after 0 that \<^verbatim>\<open>60.0 - t\<close> is \<^verbatim>\<open>60.0\<close> (such as
  \<^verbatim>\<open>1e-20\<close>) is within the last 60 seconds at time 60; but it is pruned, and the limiter
  of one call per minute does not sleep and records the time of entry.
\<close>

lemma enter_prunes_by_rounded_difference:
  assumes "0 < t" and "fsub 60 t = 60"
  shows "enter fsub \<lparr> calls = 1, period = 60, timestamps = [t] \<rparr> 60 after =
           (Inr 0, \<lparr> calls = 1, period = 60, timestamps = [60] \<rparr>)"
    and "in_window \<lparr> calls = 1, period = 60, timestamps = [t] \<rparr> 60 = 1"
  using assms by (simp_all add: enter_def in_window_def)

text \<open>
  And the sleep can end before the oldest timestamp has left the window: entered at 30
  seconds, the limiter of one call per minute that recorded \<^verbatim>\<open>2**-70\<close> computes
  \<^verbatim>\<open>30.0 - 2**-70 = 30.0\<close> and sleeps \<^verbatim>\<open>60 - 30.0 = 30.0\<close> seconds; at 60 seconds it
  records the entry, and both recorded timestamps are within the last 60 seconds.
\<close>

lemma enter_rounded_sleep_is_short:
  "enter rounding_sub early_limiter 30 60 =
     (Inr 30, early_limiter\<lparr> timestamps := [1 / 2 ^ 70, 60] \<rparr>) \<and>
   in_window (snd (enter rounding_sub early_limiter 30 60)) 60 = 2"
proof -
  have e: "enter rounding_sub early_limiter 30 60 =
             (Inr 30, early_limiter\<lparr> timestamps := [1 / 2 ^ 70, 60] \<rparr>)"
    by (simp add: enter_def early_limiter_def rounding_sub_def)
  show ?thesis unfolding e by (simp add: in_window_def early_limiter_def)
qed

text \<open>
  Claim C6 as stated, for any limiter: entering blocks until the new entry fits the
  invariant and then records the entry. With \<^verbatim>\<open>calls=0\<close> the entry neither blocks nor
  records: on a fresh limiter it raises \<^verbatim>\<open>IndexError\<close> at once.
\<close>

theorem enter_without_capacity:
  "fst (enter (-) (RateLimiter 0 60) 0 0) = Inl IndexError \<and>
   timestamps (snd (enter (-) (RateLimiter 0 60) 0 0)) = []"
  by (simp add: enter_def RateLimiter_def)

text \<open>
  Claim C6, amended: for a limiter with \<^verbatim>\<open>calls >= 1\<close>, on an entry whose float
  subtractions are exact: \<^verbatim>\<open>now - t\<close> and \<^verbatim>\<open>period - (now - t)\<close> are doubles for every
  recorded timestamp \<open>t\<close>. (They are for today's readings of \<^verbatim>\<open>time.time()\<close>, doubles
  between \<^verbatim>\<open>2**30\<close> and \<^verbatim>\<open>2**31\<close> and so multiples of \<^verbatim>\<open>2**-22\<close>, and the period 60
  of the crawlers.) Let at most \<^verbatim>\<open>calls\<close> recorded timestamps lie within the last \<^verbatim>\<open>period\<close>
  seconds at the time \<open>now\<close> of entry, and let the clock after a sleep of \<open>d\<close> seconds read
  at least \<open>now + d\<close>. Then the entry returns; it sleeps only when \<^verbatim>\<open>calls\<close> timestamps
  are in the window, and then for \<open>period - (now - oldest)\<close> seconds, the time the oldest
  of them needs to leave the window; it appends the time of recording to the pruned
  timestamps; and at the time of recording and at every later time at most \<^verbatim>\<open>calls\<close>
  recorded timestamps lie within the last \<^verbatim>\<open>period\<close> seconds.
\<close>

theorem enter_keeps_window:
  assumes pos: "0 < calls self"
      and exact: "\<And>t. t \<in> set (timestamps self) \<Longrightarrow>
                    fsub now t = now - t \<and> fsub (period self) (now - t) = period self - (now - t)"
      and inv: "int (in_window self now) \<le> calls self"
      and slept: "\<And>d. fst (enter fsub self now after) = Inr d \<Longrightarrow> 0 < d \<Longrightarrow> now + d \<le> after"
      and later: "last (timestamps (snd (enter fsub self now after))) \<le> later"
  shows "\<exists>d. fst (enter fsub self now after) = Inr d
           \<and> d = (if calls self \<le> int (in_window self now)
                  then period self - (now - hd (filter (\<lambda>t. now - t < period self) (timestamps self)))
                  else 0)
           \<and> timestamps (snd (enter fsub self now after)) =
                filter (\<lambda>t. now - t < period self) (timestamps self) @ [if 0 < d then after else now]
           \<and> int (in_window (snd (enter fsub self now after)) later) \<le> calls self"
proof -
  let ?pruned = "filter (\<lambda>t. now - t < period self) (timestamps self)"
  let ?Q = "\<lambda>t. later - t < period self"
  have fp: "filter (\<lambda>t. fsub now t < period self) (timestamps self) = ?pruned"
    by (rule filter_cong) (simp_all add: exact)
  show ?thesis
  proof (cases "calls self \<le> int (length ?pruned)")
    case False
    then have e: "enter fsub self now after = (Inr 0, self\<lparr> timestamps := ?pruned @ [now] \<rparr>)"
      by (simp add: enter_def Let_def fp)
    have "length (filter ?Q ?pruned) \<le> length ?pruned" by (rule length_filter_le)
    then have "int (in_window (self\<lparr> timestamps := ?pruned @ [now] \<rparr>) later) \<le> calls self"
      using False by (simp add: in_window_def)
    then show ?thesis using False e by (simp add: in_window_def)
  next
    case True
    then obtain oldest rest where pr: "?pruned = oldest # rest"
      using pos by (cases ?pruned) auto
    have mem: "oldest \<in> set ?pruned" using pr by simp
    then have old: "now - oldest < period self" by simp
    have ex: "fsub now oldest = now - oldest"
         "fsub (period self) (now - oldest) = period self - (now - oldest)"
      using mem exact[of oldest] by simp_all
    let ?d = "period self - (now - oldest)"
    have dpos: "0 < ?d" using old by simp
    have e: "enter fsub self now after = (Inr ?d, self\<lparr> timestamps := ?pruned @ [after] \<rparr>)"
      using True dpos pr by (simp add: enter_def Let_def fp ex)
    have "now + ?d \<le> after" using slept[of ?d] e dpos by simp
    moreover have "after \<le> later" using later e by simp
    ultimately have "\<not> ?Q oldest" by simp
    then have "Suc (length (filter ?Q (oldest # rest))) \<le> length (oldest # rest)"
      by (rule length_filter_drop_head)
    then have "Suc (length (filter ?Q ?pruned)) \<le> length ?pruned"
      unfolding pr .
    moreover have "int (length ?pruned) \<le> calls self"
      using inv by (simp add: in_window_def)
    ultimately have "int (in_window (self\<lparr> timestamps := ?pruned @ [after] \<rparr>) later) \<le> calls self"
      by (simp add: in_window_def)
    then show ?thesis using True e dpos pr by (simp add: in_window_def)
  qed
qed

text \<open>
  The limiter of two calls per minute with entries at 0 and 10 seconds, entered at 20
  seconds: all differences are small integers, hence doubles. It sleeps 40 seconds and
  records the entry at 60 seconds.
\<close>

theorem enter_keeps_window_witness:
  "0 < calls busy_limiter \<and> int (in_window busy_limiter 20) \<le> calls busy_limiter \<and>
   enter (-) busy_limiter 20 60 = (Inr 40, busy_limiter\<lparr> timestamps := [0, 10, 60] \<rparr>) \<and>
   int (in_window (snd (enter (-) busy_limiter 20 60)) 61) \<le> calls busy_limiter"
proof -
  have e: "enter (-) busy_limiter 20 60 = (Inr 40, busy_limiter\<lparr> timestamps := [0, 10, 60] \<rparr>)"
    by (simp add: enter_def busy_limiter_def Let_def)
  have pos: "0 < calls busy_limiter" by (simp add: busy_limiter_def)
  have exact: "\<And>t. t \<in> set (timestamps busy_limiter) \<Longrightarrow>
                 20 - t = 20 - t \<and> period busy_limiter - (20 - t) = period busy_limiter - (20 - t)"
    by simp
  have inv: "int (in_window busy_limiter 20) \<le> calls busy_limiter"
    by (simp add: in_window_def busy_limiter_def)
  have slept: "\<And>d. fst (enter (-) busy_limiter 20 60) = Inr d \<Longrightarrow> 0 < d \<Longrightarrow> 20 + d \<le> 60"
    unfolding e by simp
  have later: "last (timestamps (snd (enter (-) busy_limiter 20 60))) \<le> 61"
    unfolding e by simp
  from enter_keeps_window[of busy_limiter "(-)" 20 60 61, OF pos exact inv slept later] pos inv e
  show ?thesis by auto
qed

section \<open>The run loop\<close>




























text \<open>A crawler whose name does not fit never enters the loop.\<close>

lemma run_start_failed:
  assumes "varchar 100 (name s) = None"
  shows "run ulower fsub crawl clock s ts = (StartFailed, s)"
  using assms by (simp add: run_def start_logging_def)





section \<open>The WHOIS crawler\<close>







section \<open>The certificate stream\<close>

text \<open>The consumer loop does not read the stop flag.\<close>

lemma consume_ignores_stop_flag:
  "consume ulower (self\<lparr> stop_monitoring := b \<rparr>) target discovered n ps =
   consume ulower self target discovered n ps"
  by (induction ps arbitrary: discovered n) (simp_all split: option.split)

text \<open>
  Against a feed that refuses every connection the subscriber sleeps \<open>5 * k\<close> seconds
  after the \<open>k\<close>-th consecutive failure, gives up at failure number \<^verbatim>\<open>max_retries\<close> and
  sets the stop flag.
\<close>

lemma refused_feed_gives_up:
  assumes "retry_count self < max_retries self" and "\<not> stop_monitoring self"
      and "nat (max_retries self - retry_count self) \<le> n"
  shows "monitor_ct_logs self sleeps (replicate n refused) =
           (self\<lparr> retry_count := max_retries self, stop_monitoring := True \<rparr>,
            sleeps @ map (\<lambda>k. 5 * k) [retry_count self + 1..max_retries self - 1],
            True)"
  using assms
proof (induction n arbitrary: self sleeps)
  case 0
  then show ?case by simp
next
  case (Suc n)
  let ?self2 = "self\<lparr> retry_count := retry_count self + 1 \<rparr>"
  show ?case
  proof (cases "retry_count self + 1 < max_retries self")
    case True
    have ih: "monitor_ct_logs ?self2 (sleeps @ [5 * (retry_count self + 1)]) (replicate n refused) =
           (?self2\<lparr> retry_count := max_retries ?self2, stop_monitoring := True \<rparr>,
            (sleeps @ [5 * (retry_count self + 1)])
              @ map (\<lambda>k. 5 * k) [retry_count ?self2 + 1..max_retries ?self2 - 1],
            True)"
      using True Suc.prems by (intro Suc.IH) simp_all
    have u: "[retry_count self + 1..max_retries self - 1] =
             (retry_count self + 1) # [retry_count self + 1 + 1..max_retries self - 1]"
      using True by (simp add: upto_rec1)
    show ?thesis
      using True Suc.prems(1,2) ih unfolding u
      by (simp add: refused_def Let_def)
  next
    case False
    then have e: "retry_count self + 1 = max_retries self" using Suc.prems(1) by simp
    then have "[retry_count self + 1..max_retries self - 1] = []" by simp
    then show ?thesis
      using False Suc.prems(1,2) e by (simp add: refused_def Let_def)
  qed
qed

text \<open>
  Claim C9 says that the subscriber retries with exponentially growing delays, at most
  \<^verbatim>\<open>max_retries\<close> times, and that exhausting the retries sets a stop flag that both the
  subscriber and the consumer loop observe. The code against a feed that refuses every
  connection: with the crawler as \<^verbatim>\<open>__init__\<close> builds it, the subscriber sleeps 5 and
  10 seconds, gives up at the third failure and sets \<^verbatim>\<open>stop_monitoring\<close>; with
  \<^verbatim>\<open>max_retries = 5\<close> the delays are 5, 10, 15 and 20 seconds, the linear
  \<^verbatim>\<open>5 * self.retry_count\<close> that the source comments as exponential backoff. The
  consumer loop, started on that crawler with the flag set, still makes four
  \<^verbatim>\<open>get(timeout=10)\<close> calls and ends only by its own inactivity test.
\<close>

theorem cert_stream_backoff_and_stop_flag:
  "monitor_ct_logs CertTransparencyCrawler [] (replicate 3 refused) =
     (CertTransparencyCrawler\<lparr> retry_count := 3, stop_monitoring := True \<rparr>, [5, 10], True) \<and>
   monitor_ct_logs (CertTransparencyCrawler\<lparr> max_retries := 5 \<rparr>) [] (replicate 5 refused) =
     (CertTransparencyCrawler\<lparr> max_retries := 5, retry_count := 5, stop_monitoring := True \<rparr>,
      [5, 10, 15, 20], True) \<and>
   consume ulower (CertTransparencyCrawler\<lparr> retry_count := 3, stop_monitoring := True \<rparr>)
       acme_target [] 0 (map empty_pull [0, 10, 20, 30]) = ([], 4, True)"
proof (intro conjI)
  have u3: "[1..2] = [1, 2::int]" by (simp add: upto_rec1)
  show "monitor_ct_logs CertTransparencyCrawler [] (replicate 3 refused) =
     (CertTransparencyCrawler\<lparr> retry_count := 3, stop_monitoring := True \<rparr>, [5, 10], True)"
    using refused_feed_gives_up[of CertTransparencyCrawler 3 "[]"]
    by (simp add: CertTransparencyCrawler_def u3)
  have u5: "[1..4] = [1, 2, 3, 4::int]" by (simp add: upto_rec1)
  show "monitor_ct_logs (CertTransparencyCrawler\<lparr> max_retries := 5 \<rparr>) [] (replicate 5 refused) =
     (CertTransparencyCrawler\<lparr> max_retries := 5, retry_count := 5, stop_monitoring := True \<rparr>,
      [5, 10, 15, 20], True)"
    using refused_feed_gives_up[of "CertTransparencyCrawler\<lparr> max_retries := 5 \<rparr>" 5 "[]"]
    by (simp add: CertTransparencyCrawler_def u5)
  show "consume ulower (CertTransparencyCrawler\<lparr> retry_count := 3, stop_monitoring := True \<rparr>)
       acme_target [] 0 (map empty_pull [0, 10, 20, 30]) = ([], 4, True)"
    by (simp add: CertTransparencyCrawler_def empty_pull_def)
qed

section \<open>Only names of the validator's grammar are persisted\<close>

lemma strip_last_not_space:
  assumes "py_strip s \<noteq> []"
  shows "\<not> py_isspace (last (py_strip s))"
proof -
  let ?t = "dropWhile py_isspace (rev (dropWhile py_isspace s))"
  have ne: "?t \<noteq> []" using assms by (simp add: py_strip_def)
  have "last (py_strip s) = hd ?t"
    using ne by (simp add: py_strip_def last_rev)
  moreover have "\<not> py_isspace (hd ?t)" using ne by (rule hd_dropWhile)
  ultimately show ?thesis by simp
qed

lemma in_dropWhile: "x \<in> set xs \<Longrightarrow> \<not> P x \<Longrightarrow> x \<in> set (dropWhile P xs)"
  by (induction xs) auto

lemma strip_keeps:
  assumes "g \<in> set s" and "\<not> py_isspace g"
  shows "g \<in> set (py_strip s)"
proof -
  have "g \<in> set (dropWhile py_isspace s)" using assms by (rule in_dropWhile)
  then have "g \<in> set (rev (dropWhile py_isspace s))" by simp
  then have "g \<in> set (dropWhile py_isspace (rev (dropWhile py_isspace s)))"
    using assms(2) by (rule in_dropWhile)
  then show ?thesis by (simp add: py_strip_def)
qed

lemma space_is_ascii_lower: "py_isspace (ascii_lower c) \<Longrightarrow> py_isspace c"
  by (auto simp: ascii_lower_def py_isspace_def split: if_splits)

lemma newline_is_space: "py_isspace 10"
  by (simp add: py_isspace_def)

lemma normalized_last_not_newline:
  assumes "lowercase_tables ulower" and "normalize_domain ulower d \<noteq> []"
  shows "last (normalize_domain ulower d) \<noteq> 10"
proof -
  obtain s where d: "d = Some s" and s: "s \<noteq> []"
    using assms(2) by (cases d) (auto simp: normalize_domain_def split: if_splits)
  let ?t = "py_strip s"
  have n: "normalize_domain ulower d = py_lower ulower ?t"
    using d s by (simp add: normalize_domain_def)
  have t: "?t \<noteq> []"
  proof
    assume "?t = []"
    then have "py_lower ulower ?t = []" by (simp add: py_lower_def is_ascii_def)
    then show False using assms(2) n by simp
  qed
  have ns: "\<not> py_isspace (last ?t)" using t by (rule strip_last_not_space)
  have "\<not> py_isspace (last (py_lower ulower ?t))"
  proof (cases "is_ascii ?t")
    case True
    then have "last (py_lower ulower ?t) = ascii_lower (last ?t)"
      using t by (simp add: py_lower_def last_map)
    then show ?thesis using ns space_is_ascii_lower by auto
  next
    case False
    then have e: "py_lower ulower ?t = ulower ?t" by (simp add: py_lower_def)
    then have "ulower ?t \<noteq> []" using assms(2) n by simp
    then show ?thesis
      using assms(1) t ns unfolding e lowercase_tables_def by blast
  qed
  then show ?thesis using newline_is_space n by auto
qed

lemma save_domain_invalid:
  "\<not> is_valid_domain (normalize_domain ulower (domain_name c)) \<Longrightarrow>
   save_domain ulower s c = (False, s)"
  by (simp add: save_domain_def Let_def)

lemma save_domain_saved:
  assumes "fst (save_domain ulower s c)"
  shows "is_valid_domain (normalize_domain ulower (domain_name c))"
    and "\<exists>row. col_domain_name row = normalize_domain ulower (domain_name c) \<and>
           snd (save_domain ulower s c) =
           s\<lparr> discovered_domains := discovered_domains s @ [row],
              domains_found := domains_found s @ [normalize_domain ulower (domain_name c)] \<rparr>"
proof -
  show "is_valid_domain (normalize_domain ulower (domain_name c))"
    using assms save_domain_invalid[of ulower c s] by (cases "is_valid_domain (normalize_domain ulower (domain_name c))") auto
  from save_domain_cases[of ulower s c] assms
  obtain row where r: "col_domain_name row = normalize_domain ulower (domain_name c)"
    and e: "save_domain ulower s c =
      (True, s\<lparr> discovered_domains := discovered_domains s @ [row],
         domains_found := domains_found s @ [normalize_domain ulower (domain_name c)] \<rparr>)"
    by auto
  show "\<exists>row. col_domain_name row = normalize_domain ulower (domain_name c) \<and>
           snd (save_domain ulower s c) =
           s\<lparr> discovered_domains := discovered_domains s @ [row],
              domains_found := domains_found s @ [normalize_domain ulower (domain_name c)] \<rparr>"
    unfolding e using r by (intro exI[of _ row]) simp
qed

lemma glyphs_survive:
  "list_all (\<lambda>g. 128 \<le> g \<longrightarrow> \<not> py_isspace g \<and> g \<noteq> 0x212A) homograph_glyphs"
  by (simp add: homograph_glyphs_def homographs_def HOMOGRAPHS_def ascii_def py_isspace_def)

lemma glyph_candidate_not_ascii:
  assumes "lowercase_tables ulower"
      and "g \<in> set d" and "g \<in> set homograph_glyphs" and "128 \<le> g"
  shows "\<not> is_ascii (normalize_domain ulower (Some d))"
proof -
  have gs: "\<not> py_isspace g" and gk: "g \<noteq> 0x212A"
    using glyphs_survive assms(3,4) by (auto simp: list_all_iff)
  have in_t: "g \<in> set (py_strip d)" using assms(2) gs by (rule strip_keeps)
  then have na: "\<not> is_ascii (py_strip d)"
    using assms(4) by (force simp: is_ascii_def list_all_iff)
  have "\<exists>c \<in> set (py_strip d). 128 \<le> c \<and> c \<noteq> 0x212A"
    using in_t assms(4) gk by blast
  then have "\<not> is_ascii (ulower (py_strip d))"
    using assms(1) unfolding lowercase_tables_def by blast
  moreover have "d \<noteq> []" using assms(2) by auto
  ultimately show ?thesis using na by (simp add: normalize_domain_def py_lower_def)
qed

lemmas validator_defs =
  is_valid_domain_def domain_regex_match_def domain_fullmatch_def label_ok_def
  tld_ok_def is_label_char_def is_alnum_def is_alpha_def

lemmas normalize_defs =
  normalize_domain_def py_lower_def py_strip_def is_ascii_def py_isspace_def ascii_lower_def

lemma saved_into_new_crawler:
  assumes "is_valid_domain (normalize_domain ulower (Some d))"
      and "length (normalize_domain ulower (Some d)) \<le> 255" and "encodable d"
  shows "fst (save_domain ulower (new_crawler (ascii ''whois'')) (example_candidate d))"
proof -
  let ?s = "new_crawler (ascii ''whois'')"
  have dn: "domain_name (example_candidate d) = Some d" by (simp add: example_candidate_def)
  have "new_entry ?s (example_candidate d) (normalize_domain ulower (Some d)) \<noteq> None"
    using assms whois_name_fits by (intro example_candidate_stored) simp_all
  then obtain row where
    r: "new_entry ?s (example_candidate d)
          (normalize_domain ulower (domain_name (example_candidate d))) = Some row"
    unfolding dn by auto
  have v: "is_valid_domain (normalize_domain ulower (domain_name (example_candidate d)))"
    using assms(1) by (simp add: dn)
  have f: "\<not> has_domain ?s (normalize_domain ulower (domain_name (example_candidate d)))"
    by (simp add: has_domain_def new_crawler_def)
  show ?thesis unfolding save_domain_first[OF v f r] by simp
qed

lemma lowercase_tables_id: "lowercase_tables id"
proof -
  have "\<not> is_ascii s" if "c \<in> set s" "128 \<le> c" for s and c :: nat
    using that by (auto simp: is_ascii_def list_all_iff not_less intro: bexI[of _ c])
  then show ?thesis by (auto simp: lowercase_tables_def)
qed

text \<open>
  Claim C10 as stated: every candidate whose domain contains a non-ASCII character, and
  with them every homograph or IDN variant the generators produce, is rejected. Three
  candidates that \<^verbatim>\<open>save_domain\<close> accepts into an empty table:
  \<^verbatim>\<open>g0.com\<close>, the variant that \<^verbatim>\<open>_homograph_variants\<close> makes of \<^verbatim>\<open>go.com\<close> with the
  digit zero for \<^verbatim>\<open>o\<close>; \<^verbatim>\<open>fm.com\<close>, which \<^verbatim>\<open>generate_idn_variants\<close> makes of
  \<^verbatim>\<open>fm.com\<close> itself, since the rows of \<^verbatim>\<open>f\<close> and \<^verbatim>\<open>m\<close> start with the ASCII letter;
  and \<^verbatim>\<open>example.com\<close> followed by a no-break space (U+00A0), a non-ASCII character that
  \<^verbatim>\<open>strip()\<close> removes before the name is validated.
\<close>

theorem homograph_variants_saved:
  "ascii ''g0.com'' \<in> set (homograph_variants id (ascii ''go'') (ascii ''com'')) \<and>
   fst (save_domain id (new_crawler (ascii ''whois'')) (example_candidate (ascii ''g0.com''))) \<and>
   ascii ''fm.com'' \<in> generate_idn_variants id (ascii ''fm.com'') 100 \<and>
   fst (save_domain id (new_crawler (ascii ''whois'')) (example_candidate (ascii ''fm.com''))) \<and>
   \<not> is_ascii (ascii ''example.com'' @ [0xA0]) \<and>
   fst (save_domain id (new_crawler (ascii ''whois''))
          (example_candidate (ascii ''example.com'' @ [0xA0])))"
proof -
  have a: "ascii ''g0.com'' \<in> set (homograph_variants id (ascii ''go'') (ascii ''com''))"
    by (simp add: homograph_variants_def homographs_def py_lower_def is_ascii_def ascii_lower_def
        fqdn_def ascii_def upt_rec)
  have b: "is_valid_domain (normalize_domain id (Some (ascii ''g0.com'')))"
    by (simp add: normalize_defs validator_defs ascii_def)
  have b': "length (normalize_domain id (Some (ascii ''g0.com''))) \<le> 255"
           "encodable (ascii ''g0.com'')"
    by (simp_all add: normalize_defs encodable_def ascii_def)
  have c: "ascii ''fm.com'' \<in> generate_idn_variants id (ascii ''fm.com'') 100"
    by (simp add: generate_idn_variants_def single_substitutions_def double_substitutions_def
        HOMOGRAPHS_def py_lower_def is_ascii_def ascii_lower_def fqdn_def ascii_def upt_rec Let_def)
  have d: "is_valid_domain (normalize_domain id (Some (ascii ''fm.com'')))"
    by (simp add: normalize_defs validator_defs ascii_def)
  have d': "length (normalize_domain id (Some (ascii ''fm.com''))) \<le> 255"
           "encodable (ascii ''fm.com'')"
    by (simp_all add: normalize_defs encodable_def ascii_def)
  have e: "\<not> is_ascii (ascii ''example.com'' @ [0xA0])"
    by (simp add: is_ascii_def)
  have f: "is_valid_domain (normalize_domain id (Some (ascii ''example.com'' @ [0xA0])))"
    by (simp add: normalize_defs validator_defs ascii_def)
  have f': "length (normalize_domain id (Some (ascii ''example.com'' @ [0xA0]))) \<le> 255"
           "encodable (ascii ''example.com'' @ [0xA0])"
    by (simp_all add: normalize_defs encodable_def ascii_def)
  show ?thesis
    using a c e saved_into_new_crawler[OF b b'] saved_into_new_crawler[OF d d']
      saved_into_new_crawler[OF f f'] by simp
qed

text \<open>
  Claim C10, amended. Every record that \<^verbatim>\<open>save_domain\<close> adds to the table has as its
  \<^verbatim>\<open>domain_name\<close> the trimmed and lowercased name of the candidate, which matches the
  validator's pattern and consists only of ASCII letters, digits, hyphens and dots.
  Consequently a candidate whose trimmed and lowercased domain contains a non-ASCII
  character is rejected (\<^verbatim>\<open>save_domain\<close> returns \<open>False\<close>) and the state is left as it
  was; this holds for every candidate whose domain contains a non-ASCII glyph of the
  generators' homograph tables. (The variants made with an ASCII glyph are ASCII names
  and are not rejected for their characters.)
\<close>

theorem save_domain_persists_grammar_only:
  assumes "lowercase_tables ulower"
  shows "(\<forall>row \<in> set (discovered_domains (snd (save_domain ulower s c))).
            row \<in> set (discovered_domains s) \<or>
            (col_domain_name row = normalize_domain ulower (domain_name c)
             \<and> is_valid_domain (col_domain_name row)
             \<and> list_all grammar_char (col_domain_name row)))
       \<and> (\<not> is_ascii (normalize_domain ulower (domain_name c)) \<longrightarrow>
             save_domain ulower s c = (False, s))
       \<and> (\<forall>d g. domain_name c = Some d \<and> g \<in> set d \<and> g \<in> set homograph_glyphs \<and> 128 \<le> g
             \<longrightarrow> save_domain ulower s c = (False, s))"
proof (intro conjI ballI allI impI)
  fix row
  assume r: "row \<in> set (discovered_domains (snd (save_domain ulower s c)))"
  let ?dn = "normalize_domain ulower (domain_name c)"
  show "row \<in> set (discovered_domains s) \<or>
            (col_domain_name row = ?dn \<and> is_valid_domain (col_domain_name row)
             \<and> list_all grammar_char (col_domain_name row))"
  proof (cases "fst (save_domain ulower s c)")
    case False
    then have "save_domain ulower s c = (False, s)"
      using save_domain_cases[of ulower s c] by auto
    then show ?thesis using r by simp
  next
    case True
    note v = save_domain_saved(1)[OF True]
    from save_domain_saved(2)[OF True] obtain new_row where
      cn: "col_domain_name new_row = ?dn" and
      e: "snd (save_domain ulower s c) =
           s\<lparr> discovered_domains := discovered_domains s @ [new_row],
              domains_found := domains_found s @ [?dn] \<rparr>" by blast
    have "?dn \<noteq> []" using v by (auto simp: is_valid_domain_def)
    then have "last ?dn \<noteq> 10" by (rule normalized_last_not_newline[OF assms])
    then have g: "list_all grammar_char ?dn" using v valid_domain_grammar by blast
    have "row \<in> set (discovered_domains s) \<or> row = new_row"
      using r unfolding e by auto
    then show ?thesis using v g cn by auto
  qed
next
  assume "\<not> is_ascii (normalize_domain ulower (domain_name c))"
  then have "\<not> is_valid_domain (normalize_domain ulower (domain_name c))"
    using valid_domain_ascii by blast
  then show "save_domain ulower s c = (False, s)" by (rule save_domain_invalid)
next
  fix d g
  assume h: "domain_name c = Some d \<and> g \<in> set d \<and> g \<in> set homograph_glyphs \<and> 128 \<le> g"
  then have "\<not> is_ascii (normalize_domain ulower (Some d))"
    using glyph_candidate_not_ascii[OF assms, of g d] by blast
  then have "\<not> is_valid_domain (normalize_domain ulower (domain_name c))"
    using h valid_domain_ascii by auto
  then show "save_domain ulower s c = (False, s)" by (rule save_domain_invalid)
qed

theorem save_domain_persists_grammar_only_witness:
  "lowercase_tables id \<and>
   fst (save_domain id (new_crawler (ascii ''whois'')) (example_candidate (ascii ''Example.COM''))) \<and>
   list_all (\<lambda>row. col_domain_name row = ascii ''example.com''
                    \<and> list_all grammar_char (col_domain_name row))
     (discovered_domains
        (snd (save_domain id (new_crawler (ascii ''whois'')) (example_candidate (ascii ''Example.COM''))))) \<and>
   0x430 \<in> set homograph_glyphs \<and>
   save_domain id (new_crawler (ascii ''whois'')) (example_candidate (0x430 # ascii ''cmebank.com''))
     = (False, new_crawler (ascii ''whois''))"
proof -
  let ?s = "new_crawler (ascii ''whois'')"
  let ?c = "example_candidate (ascii ''Example.COM'')"
  let ?h = "example_candidate (0x430 # ascii ''cmebank.com'')"
  have n: "normalize_domain id (domain_name ?c) = ascii ''example.com''"
    by (simp add: example_candidate_def normalize_defs ascii_def)
  have v: "is_valid_domain (normalize_domain id (Some (ascii ''Example.COM'')))"
    by (simp add: normalize_defs validator_defs ascii_def)
  have v': "length (normalize_domain id (Some (ascii ''Example.COM''))) \<le> 255"
           "encodable (ascii ''Example.COM'')"
    by (simp_all add: normalize_defs encodable_def ascii_def)
  have saved: "fst (save_domain id ?s ?c)" by (rule saved_into_new_crawler[OF v v'])
  have old: "discovered_domains ?s = []" by (simp add: new_crawler_def)
  have g: "0x430 \<in> set homograph_glyphs"
    by (simp add: homograph_glyphs_def homographs_def HOMOGRAPHS_def)
  have hd: "domain_name ?h = Some (0x430 # ascii ''cmebank.com'') \<and>
            0x430 \<in> set (0x430 # ascii ''cmebank.com'') \<and> 0x430 \<in> set homograph_glyphs
            \<and> (128::nat) \<le> 0x430"
    using g by (simp add: example_candidate_def)
  note t1 = save_domain_persists_grammar_only[OF lowercase_tables_id, of ?s ?c]
  note t2 = save_domain_persists_grammar_only[OF lowercase_tables_id, of ?s ?h]
  from t1 have rows:
    "\<forall>row \<in> set (discovered_domains (snd (save_domain id ?s ?c))).
        col_domain_name row = ascii ''example.com'' \<and> list_all grammar_char (col_domain_name row)"
    unfolding old n by auto
  from t2 hd have rej: "save_domain id ?s ?h = (False, ?s)" by blast
  show ?thesis
    using lowercase_tables_id saved rows g rej by (simp add: list_all_iff)
qed

end
